theory Spec2Isabelle
  imports Complex_Main "HOL-Library.Word" "HOL-Library.Multiset" "HOL-Library.Log_Nat"
begin

unbundle bit_operations_syntax

section \<open>Numbers\<close>

text \<open>
  The program is TypeScript (\<^verbatim>\<open>src/app/page.tsx\<close>). Its \<^verbatim>\<open>number\<close> values are modelled
  as \<^typ>\<open>real\<close>, without NaN or infinities. The coordinates, colours and noise values that
  the program computes are taken in exact arithmetic. Where a rounded result decides what
  the program does next (the abscissa \<^verbatim>\<open>x += width / 160\<close> that ends a loop, the particle
  count \<^verbatim>\<open>Math.floor(width * 0.7)\<close>), the operation is rounded to the nearest IEEE 754
  binary64 number, as JavaScript does: \<open>double\<close> below. The products \<^verbatim>\<open>random() * 2\<close>,
  \<^verbatim>\<open>random() * 6\<close> and \<^verbatim>\<open>random() * (i + 1)\<close> under a \<^verbatim>\<open>Math.floor\<close> are exact in
  binary64 (a multiple of \<open>2^-32\<close> below \<open>2^8\<close>) and are left unrounded; the sign of a
  radius and the test \<^verbatim>\<open>intensity < 0.45\<close> are taken on the exact values. The one place
  where the source computes on 32-bit integers (\<^verbatim>\<open>| 0\<close>, \<^verbatim>\<open>>>> 0\<close>, \<^verbatim>\<open>Math.imul\<close>,
  \<^verbatim>\<open>^\<close>, \<^verbatim>\<open>>>>\<close>) is modelled on \<^typ>\<open>32 word\<close>, where \<open>+\<close> and \<open>*\<close> wrap around. The
  entries of a \<^verbatim>\<open>Uint8Array\<close> are \<^typ>\<open>8 word\<close>.
\<close>

type_synonym u32 = "32 word"
type_synonym u8 = "8 word"

subsection \<open>Rounding to binary64\<close>

text \<open>
  For \<open>y > 0\<close>, \<open>exponent y\<close> is the \<open>e\<close> with \<open>2^e \<le> y < 2^(e+1)\<close>. A binary64 number
  near \<open>y\<close> is a multiple of \<open>quantum y\<close>: 53 significant bits, or the spacing \<open>2^-1074\<close> of
  the subnormal numbers. \<open>double\<close> rounds to the nearest such multiple, a tie going to the
  even one. Overflow to infinity (above \<open>2^1024\<close>) is not modelled.
\<close>

definition exponent :: "real \<Rightarrow> int" where
  "exponent y =
     (if 1 \<le> y then int (floorlog 2 (nat \<lfloor>y\<rfloor>)) - 1
      else - int (floorlog 2 (nat (\<lceil>1 / y\<rceil> - 1))))"

definition round_even :: "real \<Rightarrow> int" where
  "round_even z =
     (let f = \<lfloor>z\<rfloor>; d = z - of_int f
      in if d < 1 / 2 then f else if 1 / 2 < d then f + 1 else if even f then f else f + 1)"

definition quantum :: "real \<Rightarrow> real" where
  "quantum y = 2 powi (max (exponent y) (- 1022) - 52)"

definition double :: "real \<Rightarrow> real" where
  "double y =
     (if y = 0 then 0
      else sgn y * (of_int (round_even (\<bar>y\<bar> / quantum \<bar>y\<bar>)) * quantum \<bar>y\<bar>))"

section \<open>mulberry32\<close>

text \<open>
  \<^verbatim>\<open>let a = seed >>> 0\<close>: the seed is converted to an unsigned 32-bit integer. The closure
  returned by \<^verbatim>\<open>mulberry32\<close> owns the one variable \<^verbatim>\<open>a\<close>; the model passes it explicitly.
\<close>

definition mulberry32 :: "int \<Rightarrow> u32" where
  "mulberry32 seed = word_of_int seed"

text \<open>
  One call of the returned closure: the value returned and the new \<^verbatim>\<open>a\<close>.
  \<^verbatim>\<open>a |= 0\<close> only reinterprets \<^verbatim>\<open>a\<close> as signed, \<^verbatim>\<open>>>>\<close> is the logical shift, and
  \<^verbatim>\<open>t + Math.imul(..)\<close> is reduced to 32 bits by the \<^verbatim>\<open>^=\<close> that consumes it.
\<close>

definition mulberry32_next :: "u32 \<Rightarrow> real \<times> u32" where
  "mulberry32_next a0 =
     (let a = a0 + 0x6d2b79f5;
          t = (a XOR drop_bit 15 a) * (1 OR a);
          t = t XOR (t + (t XOR drop_bit 7 t) * (61 OR t))
      in (real (unat (t XOR drop_bit 14 t)) / 4294967296, a))"

subsection \<open>The generator as the specification words it\<close>

text \<open>
  The four steps of the specification, on natural numbers with every reduction
  \<open>mod 2 ^ 32\<close> written out.
\<close>

definition spec_advance :: "nat \<Rightarrow> nat" where
  "spec_advance a = (a + 0x6D2B79F5) mod 2 ^ 32"

definition spec_mix1 :: "nat \<Rightarrow> nat" where
  "spec_mix1 a = ((a XOR drop_bit 15 a) * (a OR 1)) mod 2 ^ 32"

definition spec_mix2 :: "nat \<Rightarrow> nat" where
  "spec_mix2 t = t XOR ((t + (t XOR drop_bit 7 t) * (t OR 61)) mod 2 ^ 32)"

definition spec_output :: "nat \<Rightarrow> real" where
  "spec_output t = real ((t XOR drop_bit 14 t) mod 2 ^ 32) / 2 ^ 32"

section \<open>createPerlin\<close>

subsection \<open>Typed arrays\<close>

text \<open>
  A \<^verbatim>\<open>Uint8Array\<close> is a list of bytes of fixed length. Reading outside it gives
  \<^verbatim>\<open>undefined\<close> (\<open>None\<close>), writing outside it does nothing, and writing \<^verbatim>\<open>undefined\<close>
  stores 0. An index is a number; \<open>None\<close> is the index \<^verbatim>\<open>NaN\<close>, which a sum with
  \<^verbatim>\<open>undefined\<close> gives.
\<close>

definition u8_get :: "u8 list \<Rightarrow> int \<Rightarrow> u8 option" where
  "u8_get arr i = (if 0 \<le> i \<and> i < int (length arr) then Some (arr ! nat i) else None)"

definition u8_set :: "u8 list \<Rightarrow> int \<Rightarrow> u8 option \<Rightarrow> u8 list" where
  "u8_set arr i v =
     (if 0 \<le> i \<and> i < int (length arr)
      then arr[nat i := (case v of None \<Rightarrow> 0 | Some b \<Rightarrow> b)] else arr)"

definition index_plus :: "int \<Rightarrow> u8 option \<Rightarrow> int option" where
  "index_plus n v = (case v of None \<Rightarrow> None | Some b \<Rightarrow> Some (n + uint b))"

definition u8_at :: "u8 list \<Rightarrow> int option \<Rightarrow> u8 option" where
  "u8_at arr i = (case i of None \<Rightarrow> None | Some n \<Rightarrow> u8_get arr n)"

subsection \<open>The permutation table\<close>

text \<open>\<^verbatim>\<open>for (let i = 0; i < 256; i += 1) p[i] = i\<close> on a fresh \<^verbatim>\<open>Uint8Array(256)\<close>.\<close>

definition identity_table :: "u8 list" where
  "identity_table = map word_of_nat [0..<256]"

text \<open>
  \<^verbatim>\<open>for (let i = 255; i > 0; i -= 1) { j = Math.floor(random() * (i + 1)); swap }\<close>.
  The generator is a parameter, as in the source: a step function on a state of any type.
  \<open>shuffle random i p s\<close> runs the iterations \<open>i, i - 1, .., 1\<close>.
\<close>

fun shuffle :: "('s \<Rightarrow> real \<times> 's) \<Rightarrow> nat \<Rightarrow> u8 list \<Rightarrow> 's \<Rightarrow> u8 list \<times> 's" where
  "shuffle random 0 p s = (p, s)"
| "shuffle random (Suc n) p s =
     (let i = int (Suc n);
          (r, s') = random s;
          j = \<lfloor>r * (of_int i + 1)\<rfloor>;
          tmp = u8_get p i;
          p = u8_set p i (u8_get p j);
          p = u8_set p j tmp
      in shuffle random n p s')"

text \<open>\<^verbatim>\<open>for (let i = 0; i < 512; i += 1) permutation[i] = p[i & 255]\<close>.\<close>

definition duplicate_table :: "u8 list \<Rightarrow> u8 list" where
  "duplicate_table p =
     map (\<lambda>i. case u8_get p (int i AND 255) of None \<Rightarrow> 0 | Some b \<Rightarrow> b) [0..<512]"

text \<open>
  \<^verbatim>\<open>createPerlin(random)\<close> returns a closure over \<^verbatim>\<open>permutation\<close>; the model returns the
  table (and the 256-entry table \<^verbatim>\<open>p\<close> it was copied from, and the generator's state
  after the 255 draws), and \<open>perlin\<close> below is the closure's body.
\<close>

definition shuffled_table :: "('s \<Rightarrow> real \<times> 's) \<Rightarrow> 's \<Rightarrow> u8 list \<times> 's" where
  "shuffled_table random s = shuffle random 255 identity_table s"

definition createPerlin :: "('s \<Rightarrow> real \<times> 's) \<Rightarrow> 's \<Rightarrow> u8 list \<times> 's" where
  "createPerlin random s =
     (let (p, s') = shuffled_table random s in (duplicate_table p, s'))"

subsection \<open>The noise function\<close>

definition fade :: "real \<Rightarrow> real" where
  "fade t = t * t * t * (t * (t * 6 - 15) + 10)"

definition lerp :: "real \<Rightarrow> real \<Rightarrow> real \<Rightarrow> real" where
  "lerp t a b = a + t * (b - a)"

text \<open>\<^verbatim>\<open>hash & 3\<close>, where \<^verbatim>\<open>undefined & 3\<close> is 0.\<close>

definition grad :: "u8 option \<Rightarrow> real \<Rightarrow> real \<Rightarrow> real" where
  "grad hash x y =
     (let h = (case hash of None \<Rightarrow> 0 | Some b \<Rightarrow> unat (b AND 3));
          u = (if h < 2 then x else y);
          v = (if h < 2 then y else x)
      in (if h AND 1 = 0 then u else - u) + (if h AND 2 = 0 then v else - v))"

text \<open>\<^verbatim>\<open>Math.floor(x) & 255\<close>: the floor is converted to a 32-bit integer by \<^verbatim>\<open>&\<close>.\<close>

definition cell :: "real \<Rightarrow> int" where
  "cell x = uint ((word_of_int \<lfloor>x\<rfloor> :: u32) AND 255)"

text \<open>The four table reads of one evaluation, and the indices of all its reads.\<close>

definition corner_hashes ::
  "u8 list \<Rightarrow> int \<Rightarrow> int \<Rightarrow> u8 option \<times> u8 option \<times> u8 option \<times> u8 option" where
  "corner_hashes permutation X Y =
     (u8_at permutation (index_plus X (u8_get permutation Y)),
      u8_at permutation (index_plus X (u8_get permutation (Y + 1))),
      u8_at permutation (index_plus (X + 1) (u8_get permutation Y)),
      u8_at permutation (index_plus (X + 1) (u8_get permutation (Y + 1))))"

definition perlin_reads :: "u8 list \<Rightarrow> real \<Rightarrow> real \<Rightarrow> int option list" where
  "perlin_reads permutation x y =
     (let X = cell x; Y = cell y
      in [Some Y, Some (Y + 1),
          index_plus X (u8_get permutation Y),
          index_plus X (u8_get permutation (Y + 1)),
          index_plus (X + 1) (u8_get permutation Y),
          index_plus (X + 1) (u8_get permutation (Y + 1))])"

definition in_table :: "int option \<Rightarrow> bool" where
  "in_table i = (case i of None \<Rightarrow> False | Some n \<Rightarrow> 0 \<le> n \<and> n \<le> 511)"

definition perlin :: "u8 list \<Rightarrow> real \<Rightarrow> real \<Rightarrow> real" where
  "perlin permutation x y =
     (let X = cell x;
          Y = cell y;
          xf = x - of_int \<lfloor>x\<rfloor>;
          yf = y - of_int \<lfloor>y\<rfloor>;
          u = fade xf;
          v = fade yf;
          (aa, ab, ba, bb) = corner_hashes permutation X Y;
          x1 = lerp u (grad aa xf yf) (grad ba (xf - 1) yf);
          x2 = lerp u (grad ab xf (yf - 1)) (grad bb (xf - 1) (yf - 1))
      in (lerp v x1 x2 + 1) / 2)"

section \<open>The 2D context\<close>

text \<open>
  The browser's \<^verbatim>\<open>CanvasRenderingContext2D\<close> is outside the repository. The program never
  reads anything back from it: it only calls its methods and assigns its properties. The
  context is therefore modelled by the sequence of these calls, in the order they are made.
  Colours keep their CSS form: a hexadecimal string or the four components of
  \<^verbatim>\<open>rgba(r,g,b,a)\<close>. A gradient object is recorded, with the stops added to it, where it is
  assigned to \<^verbatim>\<open>fillStyle\<close>.
\<close>

datatype composite = SourceOver | Lighter

datatype color = Hex string | Rgba nat nat nat real

datatype style =
    Solid color
  | LinearGradient real real real real "(real \<times> color) list"
  | RadialGradient real real real real real real "(real \<times> color) list"

datatype call =
    ClearRect real real real real
  | FillRect real real real real
  | SetFillStyle style
  | SetGlobalCompositeOperation composite
  | BeginPath
  | MoveTo real real
  | LineTo real real
  | ClosePath
  | Arc real real real real real
  | Fill
  | Save
  | Restore
  | Translate real real
  | Rotate real
  | Scale real real

type_synonym ctx2d = "call list"

text \<open>
  \<^verbatim>\<open>type DrawContext = { ctx, width, height, random, perlin }\<close>. The closure \<^verbatim>\<open>random\<close> is
  its variable \<^verbatim>\<open>a\<close>; the closure \<^verbatim>\<open>perlin\<close> is its table.
\<close>

record draw_context =
  ctx :: ctx2d
  width :: real
  height :: real
  random_state :: u32
  perlin_table :: "u8 list"

text \<open>
  The source has no \<^verbatim>\<open>throw\<close>. The context throws the DOM exception \<^verbatim>\<open>IndexSizeError\<close>
  where \<^verbatim>\<open>createRadialGradient\<close> or \<^verbatim>\<open>arc\<close> is given a negative radius. The two errors
  that the specification names are declared so that an outcome of \<open>drawScene\<close> can be
  compared with them; nothing in the source produces them.
\<close>

datatype error = IndexSizeError | InvalidDimensions | SurfaceUnavailable

text \<open>\<^verbatim>\<open>random()\<close>: the value drawn, and the context with the generator advanced.\<close>

definition draw_random :: "draw_context \<Rightarrow> real \<times> draw_context" where
  "draw_random dc =
     (let (r, a) = mulberry32_next (random_state dc) in (r, dc\<lparr>random_state := a\<rparr>))"

text \<open>Consecutive calls on \<^verbatim>\<open>ctx\<close>.\<close>

definition emit :: "call list \<Rightarrow> draw_context \<Rightarrow> draw_context" where
  "emit cs dc = dc\<lparr>ctx := ctx dc @ cs\<rparr>"

section \<open>The layer passes\<close>

definition fillBackground :: "draw_context \<Rightarrow> draw_context" where
  "fillBackground dc =
     (let w = width dc;
          h = height dc;
          sky = LinearGradient 0 0 0 h
                  [(0, Hex ''#05070b''), (0.3, Hex ''#0d1117''),
                   (0.65, Hex ''#1a1a1f''), (1, Hex ''#2c1c14'')];
          glow = LinearGradient 0 (h * 0.55) 0 h
                  [(0, Rgba 255 120 30 0.25), (0.35, Rgba 210 80 20 0.15),
                   (1, Rgba 20 12 10 0.85)]
      in emit [SetFillStyle sky, FillRect 0 0 w h,
               SetFillStyle glow, FillRect 0 (h * 0.55) w (h * 0.45)] dc)"

text \<open>
  The body of the loop of \<^verbatim>\<open>drawExplosion\<close>; it does not use \<^verbatim>\<open>i\<close>.
  \<^verbatim>\<open>createRadialGradient(x0, y0, r0, x1, y1, r1)\<close> throws on a negative \<open>r0\<close> or \<open>r1\<close>,
  before anything is drawn; \<^verbatim>\<open>arc\<close> with that \<open>radius\<close> is then not reached.
\<close>

definition fireball :: "draw_context \<Rightarrow> error + draw_context" where
  "fireball dc0 =
     (let (r1, dc) = draw_random dc0;
          baseX = width dc * (0.38 + r1 * 0.24);
          (r2, dc) = draw_random dc;
          baseY = height dc * (0.62 + r2 * 0.06);
          (r3, dc) = draw_random dc;
          radius = width dc * (0.12 + r3 * 0.08)
      in if radius * 0.1 < 0 \<or> radius < 0 then Inl IndexSizeError
         else
           (let gradient = RadialGradient baseX baseY (radius * 0.1) baseX baseY radius
                  [(0, Rgba 255 245 200 0.95), (0.2, Rgba 255 190 90 0.9),
                   (0.45, Rgba 220 90 20 0.75), (0.85, Rgba 70 25 12 0.2),
                   (1, Rgba 20 10 8 0)]
            in Inr (emit [SetFillStyle gradient, BeginPath,
                          Arc baseX baseY radius 0 (pi * 2), Fill] dc)))"

text \<open>\<^verbatim>\<open>for (let i = 0; i < fireballCount; i += 1)\<close>, with \<open>n\<close> iterations left.\<close>

fun fireballs :: "nat \<Rightarrow> draw_context \<Rightarrow> error + draw_context" where
  "fireballs 0 dc = Inr dc"
| "fireballs (Suc n) dc =
     (case fireball dc of Inl e \<Rightarrow> Inl e | Inr dc' \<Rightarrow> fireballs n dc')"

definition drawExplosion :: "draw_context \<Rightarrow> error + draw_context" where
  "drawExplosion dc0 =
     (let (r, dc) = draw_random dc0;
          fireballCount = 3 + \<lfloor>r * 2\<rfloor>
      in fireballs (nat fireballCount) dc)"

text \<open>
  \<^verbatim>\<open>for (let x = 0; x <= width; x += step) ctx.lineTo(x, y(x))\<close>, the inner loop of
  \<^verbatim>\<open>drawSmoke\<close> and the first loop of \<^verbatim>\<open>drawTerrain\<close>. The sum \<^verbatim>\<open>x + step\<close> is rounded at
  every iteration, and so is the quotient \<^verbatim>\<open>width / 160\<close> (or \<^verbatim>\<open>/ 200\<close>) that the callers
  pass as \<open>step\<close>. Nothing bounds the number of iterations: where the loop does not end,
  the value is \<open>None\<close>.
\<close>

partial_function (option) curve_loop ::
  "(real \<Rightarrow> real) \<Rightarrow> real \<Rightarrow> real \<Rightarrow> real \<Rightarrow> ctx2d \<Rightarrow> ctx2d option" where
  "curve_loop y w step x cx =
     (if x \<le> w then curve_loop y w step (double (x + step)) (cx @ [LineTo x (y x)])
      else Some cx)"

declare curve_loop.simps [code]

text \<open>A counted loop whose body may not return.\<close>

fun for_each :: "('i \<Rightarrow> 'a \<Rightarrow> 'a option) \<Rightarrow> 'i list \<Rightarrow> 'a \<Rightarrow> 'a option" where
  "for_each body [] a = Some a"
| "for_each body (i # is) a =
     (case body i a of None \<Rightarrow> None | Some a' \<Rightarrow> for_each body is a')"

definition smoke_layer :: "nat \<Rightarrow> draw_context \<Rightarrow> draw_context option" where
  "smoke_layer layer dc0 =
     (let opacity = 0.25 - real layer * 0.01;
          (r, dc) = draw_random dc0;
          offset = r * 1000;
          yBase = height dc * (0.55 + real layer * 0.015);
          dc = emit [BeginPath, MoveTo 0 (height dc)] dc
      in case curve_loop
                (\<lambda>x. yBase - perlin (perlin_table dc) (x * 0.002 + offset)
                                (real layer * 0.25 + offset * 0.01) * height dc * 0.22)
                (width dc) (double (width dc / 160)) 0 (ctx dc) of
           None \<Rightarrow> None
         | Some cx \<Rightarrow>
             Some (emit [LineTo (width dc) (height dc), ClosePath,
                         SetFillStyle (Solid (Rgba 28 24 30 opacity)), Fill]
                     (dc\<lparr>ctx := cx\<rparr>)))"

definition drawSmoke :: "draw_context \<Rightarrow> draw_context option" where
  "drawSmoke dc = for_each smoke_layer [0..<16] dc"

text \<open>The body of the loop of \<^verbatim>\<open>drawEmbers\<close>; \<^verbatim>\<open>continue\<close> leaves the context as it is.\<close>

definition ember :: "draw_context \<Rightarrow> draw_context" where
  "ember dc0 =
     (let (r1, dc) = draw_random dc0;
          x = r1 * width dc;
          (r2, dc) = draw_random dc;
          y = height dc * (0.4 + r2 * 0.45);
          intensity = perlin (perlin_table dc) (x * 0.03) (y * 0.03)
      in if intensity < 0.45 then dc
         else
           (let (r3, dc) = draw_random dc;
                size = 0.8 + r3 * 1.6;
                dc = emit [Save, Translate x y] dc;
                (r4, dc) = draw_random dc;
                dc = emit [Rotate ((r4 - 0.5) * pi * 0.3)] dc;
                (r5, dc) = draw_random dc;
                gradient = LinearGradient 0 0 0 (size * 6)
                        [(0, Rgba 255 210 120 (0.85 + r5 * 0.1)), (0.5, Rgba 255 120 30 0.4),
                         (1, Rgba 60 20 10 0)];
                dc = emit [SetFillStyle gradient] dc;
                (r6, dc) = draw_random dc
            in emit [FillRect (- size) 0 (size * 2) (size * 6 + r6 * 18), Restore] dc))"

definition drawEmbers :: "draw_context \<Rightarrow> draw_context" where
  "drawEmbers dc =
     (let count = \<lfloor>double (width dc * double 0.7)\<rfloor> in (ember ^^ nat count) dc)"

text \<open>The body of the second loop of \<^verbatim>\<open>drawTerrain\<close>, for one \<^verbatim>\<open>i\<close>.\<close>

definition terrain_structure :: "int \<Rightarrow> real \<Rightarrow> nat \<Rightarrow> draw_context \<Rightarrow> draw_context" where
  "terrain_structure structures horizon i dc0 =
     (let (r1, dc) = draw_random dc0;
          x = (real i / of_int structures) * width dc + r1 * width dc * 0.04;
          (r2, dc) = draw_random dc;
          baseHeight = height dc * (0.12 + r2 * 0.12);
          (r3, dc) = draw_random dc;
          widthFactor = width dc * (0.02 + r3 * 0.03);
          dc = emit [Save] dc;
          (r4, dc) = draw_random dc;
          dc = emit [Translate x (horizon - r4 * height dc * 0.08)] dc;
          (r5, dc) = draw_random dc;
          dc = emit [Scale 1 (1 + r5 * 0.2), BeginPath, MoveTo (- widthFactor * 0.6) 0] dc;
          (r6, dc) = draw_random dc;
          dc = emit [LineTo (- widthFactor * 0.3) (- baseHeight * (0.3 + r6 * 0.2))] dc;
          (r7, dc) = draw_random dc;
          dc = emit [LineTo (- widthFactor * 0.4) (- baseHeight * (0.7 + r7 * 0.2)),
                     LineTo (widthFactor * 0.2) (- baseHeight)] dc;
          (r8, dc) = draw_random dc;
          dc = emit [LineTo (widthFactor * 0.4) (- baseHeight * (0.7 + r8 * 0.2))] dc;
          (r9, dc) = draw_random dc
      in emit [LineTo (widthFactor * 0.7) (- baseHeight * (0.3 + r9 * 0.2)),
               LineTo (widthFactor * 0.9) 0, ClosePath,
               SetFillStyle (Solid (Rgba 10 10 14 0.9)), Fill, Restore] dc)"

text \<open>
  \<^verbatim>\<open>drawTerrain\<close> in its three parts: the horizon silhouette (the lines up to the first
  \<^verbatim>\<open>ctx.fill()\<close>), the structures, and the haze band.
\<close>

definition terrain_horizon :: "real \<Rightarrow> draw_context \<Rightarrow> draw_context option" where
  "terrain_horizon horizon dc0 =
     (let dc = emit [BeginPath, MoveTo 0 (height dc0)] dc0
      in case curve_loop
                (\<lambda>x. horizon + perlin (perlin_table dc) (x * 0.003) 20 * height dc * 0.18)
                (width dc) (double (width dc / 200)) 0 (ctx dc) of
           None \<Rightarrow> None
         | Some cx \<Rightarrow>
             Some (emit [LineTo (width dc) (height dc), ClosePath,
                         SetFillStyle (Solid (Hex ''#050406'')), Fill] (dc\<lparr>ctx := cx\<rparr>)))"

definition terrain_structures :: "real \<Rightarrow> draw_context \<Rightarrow> draw_context" where
  "terrain_structures horizon dc0 =
     (let (r, dc) = draw_random dc0;
          structures = 12 + \<lfloor>r * 6\<rfloor>
      in fold (terrain_structure structures horizon) [0..<nat structures] dc)"

definition terrain_haze :: "real \<Rightarrow> draw_context \<Rightarrow> draw_context" where
  "terrain_haze horizon dc =
     (let haze = LinearGradient 0 (horizon - height dc * 0.1) 0 (horizon + height dc * 0.2)
                  [(0, Rgba 255 130 60 0.06), (0.5, Rgba 255 90 40 0.1),
                   (1, Rgba 30 10 10 0)]
      in emit [SetGlobalCompositeOperation Lighter, SetFillStyle haze,
               FillRect 0 (horizon - height dc * 0.1) (width dc) (height dc * 0.3),
               SetGlobalCompositeOperation SourceOver] dc)"

definition drawTerrain :: "draw_context \<Rightarrow> draw_context option" where
  "drawTerrain dc0 =
     (let horizon = height dc0 * 0.68
      in case terrain_horizon horizon dc0 of
           None \<Rightarrow> None
         | Some dc \<Rightarrow> Some (terrain_haze horizon (terrain_structures horizon dc)))"


text \<open>The body of the loop of \<^verbatim>\<open>drawAtmosphericDust\<close>.\<close>

definition dust :: "draw_context \<Rightarrow> draw_context" where
  "dust dc0 =
     (let (r1, dc) = draw_random dc0;
          x = r1 * width dc;
          (r2, dc) = draw_random dc;
          y = r2 * height dc;
          (r3, dc) = draw_random dc;
          alpha = 0.02 + r3 * 0.04;
          (r4, dc) = draw_random dc;
          size = r4 * 2
      in emit [SetFillStyle (Solid (Rgba 240 200 140 alpha)), FillRect x y size size] dc)"

definition drawAtmosphericDust :: "draw_context \<Rightarrow> draw_context" where
  "drawAtmosphericDust dc =
     (let density = \<lfloor>double (width dc * double 3.6)\<rfloor> in (dust ^^ nat density) dc)"

section \<open>drawScene\<close>

text \<open>
  A canvas either gives its 2D context (here: the calls made on it so far) or \<^verbatim>\<open>null\<close>.
  The result of \<open>drawScene\<close> is \<open>None\<close> where it does not return, \<open>Inl\<close> where an exception
  leaves it (what was drawn before the exception stays on the browser's canvas; the result
  \<open>Inl\<close> does not show it), and \<open>Inr\<close> with the canvas where it returns.
\<close>

record canvas =
  context2d :: "ctx2d option"

definition getContext :: "canvas \<Rightarrow> ctx2d option" where
  "getContext cv = context2d cv"

text \<open>
  \<open>drawScene\<close> in its parts: the \<^verbatim>\<open>DrawContext\<close> built from the seed (the generator, then
  the noise table made from its first 255 draws), and the six calls of the layer passes.
\<close>

definition scene_context :: "ctx2d \<Rightarrow> real \<Rightarrow> real \<Rightarrow> int \<Rightarrow> draw_context" where
  "scene_context cx w h seed =
     (let a = mulberry32 seed;
          (tbl, a) = createPerlin mulberry32_next a
      in \<lparr>ctx = cx, width = w, height = h, random_state = a, perlin_table = tbl\<rparr>)"

definition layer_passes :: "draw_context \<Rightarrow> (error + draw_context) option" where
  "layer_passes drawContext =
     (let dc = fillBackground drawContext
      in case drawExplosion dc of
           Inl e \<Rightarrow> Some (Inl e)
         | Inr dc \<Rightarrow>
             (case drawSmoke dc of
                None \<Rightarrow> None
              | Some dc \<Rightarrow>
                  (case drawTerrain (drawEmbers dc) of
                     None \<Rightarrow> None
                   | Some dc \<Rightarrow> Some (Inr (drawAtmosphericDust dc)))))"

definition drawScene :: "canvas \<Rightarrow> real \<Rightarrow> real \<Rightarrow> int \<Rightarrow> (error + canvas) option" where
  "drawScene cv w h seed =
     (case getContext cv of
        None \<Rightarrow> Some (Inr cv)
      | Some cx \<Rightarrow>
          (let drawContext = scene_context cx w h seed;
               dc = emit [ClearRect 0 0 w h] drawContext
           in case layer_passes dc of
                None \<Rightarrow> None
              | Some (Inl e) \<Rightarrow> Some (Inl e)
              | Some (Inr dc) \<Rightarrow> Some (Inr (cv\<lparr>context2d := Some (ctx dc)\<rparr>))))"

text \<open>
  The calls that one invocation of \<open>drawScene\<close> adds to those already made on the canvas;
  \<open>None\<close> where it does not return a canvas (it does not return, or an exception leaves
  it).
\<close>

definition calls_of :: "canvas \<Rightarrow> ctx2d" where
  "calls_of cv = (case getContext cv of None \<Rightarrow> [] | Some cx \<Rightarrow> cx)"

definition issued :: "canvas \<Rightarrow> real \<Rightarrow> real \<Rightarrow> int \<Rightarrow> call list option" where
  "issued cv w h seed =
     (case drawScene cv w h seed of
        Some (Inr cv') \<Rightarrow> Some (drop (length (calls_of cv)) (calls_of cv'))
      | Some (Inl e) \<Rightarrow> None
      | None \<Rightarrow> None)"

section \<open>The composite mode of the context\<close>







section \<open>Notions used in the statements\<close>



text \<open>
  The same drawing context with other calls already made on \<^verbatim>\<open>ctx\<close>: none (\<open>fresh\<close>), or the
  calls \<open>pre\<close> before its own.
\<close>

definition fresh :: "draw_context \<Rightarrow> draw_context" where
  "fresh dc = dc\<lparr>ctx := []\<rparr>"

definition prepend :: "call list \<Rightarrow> draw_context \<Rightarrow> draw_context" where
  "prepend pre dc = dc\<lparr>ctx := pre @ ctx dc\<rparr>"

text \<open>
  The abscissas that \<open>curve_loop\<close> visits from \<open>x\<close> on, at most \<open>fuel\<close> of them, and those of
  a whole loop of steps \<^verbatim>\<open>width / n\<close> over the width \<open>w\<close>: the rounded sums \<open>0\<close>, \<open>step\<close>,
  \<open>double (step + step)\<close>, .. that are at most \<open>w\<close>. Their number depends on the
  rounding; the bound \<open>4 * n + 1\<close> is not reached for an ordinary width (lemma
  \<open>curve_loop_closed\<close>). \<open>curve_calls\<close> are the \<^verbatim>\<open>lineTo\<close> calls
  of the loop.
\<close>

fun abscissas_from :: "nat \<Rightarrow> real \<Rightarrow> real \<Rightarrow> real \<Rightarrow> real list" where
  "abscissas_from 0 w step x = []"
| "abscissas_from (Suc fuel) w step x =
     (if x \<le> w then x # abscissas_from fuel w step (double (x + step)) else [])"

definition abscissas :: "real \<Rightarrow> nat \<Rightarrow> real list" where
  "abscissas w n = abscissas_from (4 * n + 1) w (double (w / real n)) 0"

definition curve_calls :: "(real \<Rightarrow> real) \<Rightarrow> real \<Rightarrow> nat \<Rightarrow> call list" where
  "curve_calls y w n = map (\<lambda>x. LineTo x (y x)) (abscissas w n)"

text \<open>
  The widths for which the statements below are made: positive, with \<^verbatim>\<open>width / 200\<close> above
  the subnormal range of binary64 and \<^verbatim>\<open>width + step\<close> below its overflow. Every width in
  pixels that a canvas can have, 0 apart, is among them.
\<close>

definition ordinary_width :: "real \<Rightarrow> bool" where
  "ordinary_width w = (1 / 2 ^ 1000 \<le> w \<and> w \<le> 2 ^ 1000)"

text \<open>Two drawing contexts of one scene: the same size and the same noise table.\<close>

definition same_scene :: "draw_context \<Rightarrow> draw_context \<Rightarrow> bool" where
  "same_scene dc dc' =
     (width dc' = width dc \<and> height dc' = height dc \<and> perlin_table dc' = perlin_table dc)"


text \<open>The generator after \<open>n\<close> calls, and the value that its call number \<open>k\<close> (from 0) returns.\<close>

definition advance :: "nat \<Rightarrow> u32 \<Rightarrow> u32" where
  "advance n a = ((\<lambda>a. snd (mulberry32_next a)) ^^ n) a"

definition nth_draw :: "u32 \<Rightarrow> nat \<Rightarrow> real" where
  "nth_draw a k = fst (mulberry32_next (advance k a))"

text \<open>
  One smoke layer as the specification describes it: a path from \<open>(0, height)\<close> along the
  curve with ordinate \<open>yBase - perlin(x * 0.002 + offset, k * 0.25 + offset * 0.01) * height * 0.22\<close>
  back to \<open>(width, height)\<close>, closed and filled with opacity \<open>0.25 - 0.01 * k\<close>. The curve is
  sampled at the abscissas that the loop \<^verbatim>\<open>x += width / 160\<close> visits.
\<close>

definition smoke_layer_calls :: "real \<Rightarrow> real \<Rightarrow> u8 list \<Rightarrow> nat \<Rightarrow> real \<Rightarrow> call list" where
  "smoke_layer_calls w h tbl k offset =
     [BeginPath, MoveTo 0 h]
     @ curve_calls
         (\<lambda>x. h * (0.55 + real k * 0.015)
              - perlin tbl (x * 0.002 + offset) (real k * 0.25 + offset * 0.01) * h * 0.22)
         w 160
     @ [LineTo w h, ClosePath, SetFillStyle (Solid (Rgba 28 24 30 (0.25 - 0.01 * real k))), Fill]"


text \<open>
  Used in the bound on \<open>perlin\<close>: the weight that one coordinate \<open>t\<close> of the cell
  contributes, at most, to the interpolated gradients.
\<close>

definition tent :: "real \<Rightarrow> real" where
  "tent t = t + fade t * (1 - 2 * t)"

section \<open>The generator: range and refinement\<close>

lemma u32_ratio_range:
  "0 \<le> real (unat (w :: u32)) / 4294967296 \<and> real (unat w) / 4294967296 < 1"
proof -
  define n where "n = unat w"
  have "n < 2 ^ 32"
    unfolding n_def using unsigned_less [of w, where ?'a = nat] by simp
  then have "n < 4294967296" by simp
  then have "0 \<le> real n / 4294967296 \<and> real n / 4294967296 < 1" by simp
  then show ?thesis unfolding n_def .
qed

lemma mulberry32_next_range:
  "0 \<le> fst (mulberry32_next a) \<and> fst (mulberry32_next a) < 1"
  unfolding mulberry32_next_def Let_def fst_conv by (rule u32_ratio_range)

lemma unat_mix1:
  "unat ((a XOR drop_bit 15 a) * (1 OR a)) = spec_mix1 (unat (a :: u32))"
  by (simp add: spec_mix1_def unat_word_ariths unsigned_xor_eq unsigned_or_eq
      unat_drop_bit_eq or.commute)

lemma unat_mix2:
  "unat (t XOR (t + (t XOR drop_bit 7 t) * (61 OR t))) = spec_mix2 (unat (t :: u32))"
  by (simp add: spec_mix2_def unat_word_ariths unsigned_xor_eq unsigned_or_eq
      unat_drop_bit_eq or.commute mod_add_right_eq)

lemma unat_advance: "unat (a + 0x6d2b79f5) = spec_advance (unat (a :: u32))"
  by (simp add: spec_advance_def unat_word_ariths)

lemma unat_output:
  "real (unat (t XOR drop_bit 14 t)) / 4294967296 = spec_output (unat (t :: u32))"
proof -
  have "unat (t XOR drop_bit 14 t) < 2 ^ 32"
    using unsigned_less [of "t XOR drop_bit 14 t", where ?'a = nat] by simp
  then have "unat (t XOR drop_bit 14 t) mod 2 ^ 32 = unat (t XOR drop_bit 14 t)"
    by simp
  then have "(unat t XOR drop_bit 14 (unat t)) mod 2 ^ 32 = unat (t XOR drop_bit 14 t)"
    by (simp add: unsigned_xor_eq unat_drop_bit_eq)
  then show ?thesis
    unfolding spec_output_def by simp
qed

text \<open>
  C2. Each call of the generator advances the state by \<open>a := (a + 0x6D2B79F5) mod 2^32\<close>,
  mixes it in the two multiply-xor-shift steps and returns the mixed word divided by
  \<open>2^32\<close>; the value returned lies in \<open>[0, 1)\<close>, for every state, and the new state is one
  advance of the old one.
\<close>

theorem mulberry32_next_refines_spec:
  "fst (mulberry32_next a) = spec_output (spec_mix2 (spec_mix1 (spec_advance (unat a))))
   \<and> unat (snd (mulberry32_next a)) = spec_advance (unat a)
   \<and> 0 \<le> fst (mulberry32_next a) \<and> fst (mulberry32_next a) < 1"
proof -
  have "fst (mulberry32_next a)
      = spec_output (spec_mix2 (spec_mix1 (spec_advance (unat a))))"
    unfolding mulberry32_next_def Let_def fst_conv
    by (simp only: unat_output unat_mix2 unat_mix1 unat_advance)
  moreover have "unat (snd (mulberry32_next a)) = spec_advance (unat a)"
    unfolding mulberry32_next_def Let_def snd_conv by (rule unat_advance)
  ultimately show ?thesis
    using mulberry32_next_range [of a] by simp
qed

section \<open>The permutation table and the reads of the noise function\<close>

lemma u8_get_in: "0 \<le> i \<Longrightarrow> i < int (length arr) \<Longrightarrow> u8_get arr i = Some (arr ! nat i)"
  by (simp add: u8_get_def)

lemma length_u8_set [simp]: "length (u8_set arr i v) = length arr"
  by (simp add: u8_set_def)

lemma mset_swap_u8:
  assumes "0 \<le> i" "i < int (length p)" "0 \<le> j" "j < int (length p)"
  shows "mset (u8_set (u8_set p i (u8_get p j)) j (u8_get p i)) = mset p"
proof -
  have "u8_set (u8_set p i (u8_get p j)) j (u8_get p i)
      = p[nat i := p ! nat j, nat j := p ! nat i]"
    using assms by (simp add: u8_set_def u8_get_def)
  moreover have "nat i < length p" "nat j < length p" using assms by auto
  ultimately show ?thesis by (simp add: mset_swap)
qed

lemma draw_index_range:
  fixes r :: real
  assumes "0 \<le> r" "r < 1" "0 \<le> i"
  shows "0 \<le> \<lfloor>r * (of_int i + 1)\<rfloor> \<and> \<lfloor>r * (of_int i + 1)\<rfloor> \<le> i"
proof -
  have pos: "0 < (of_int i + 1 :: real)" using assms(3) by linarith
  have "0 \<le> r * (of_int i + 1)" using assms(1) pos by simp
  then have a: "0 \<le> \<lfloor>r * (of_int i + 1)\<rfloor>" by simp
  have "r * (of_int i + 1) < 1 * (of_int i + 1)"
    using assms(2) pos by simp
  then have "r * (of_int i + 1) < of_int (i + 1)" by simp
  then have "\<lfloor>r * (of_int i + 1)\<rfloor> < i + 1" by (simp only: floor_less_iff)
  with a show ?thesis by simp
qed

lemma shuffle_mset:
  assumes rng: "\<And>s. 0 \<le> fst (random s) \<and> fst (random s) < 1"
  shows "n < length p \<Longrightarrow>
         mset (fst (shuffle random n p s)) = mset p
         \<and> length (fst (shuffle random n p s)) = length p"
proof (induction n arbitrary: p s)
  case 0
  then show ?case by simp
next
  case (Suc n)
  obtain r s' where rs: "random s = (r, s')" by (cases "random s")
  have r: "0 \<le> r" "r < 1" using rng [of s] rs by simp_all
  define j where "j = \<lfloor>r * (of_int (int (Suc n)) + 1)\<rfloor>"
  have j: "0 \<le> j" "j \<le> int (Suc n)"
    using draw_index_range [OF r, of "int (Suc n)"] by (simp_all add: j_def)
  define p' where "p' = u8_set (u8_set p (int (Suc n)) (u8_get p j)) j (u8_get p (int (Suc n)))"
  have step: "shuffle random (Suc n) p s = shuffle random n p' s'"
    by (simp add: rs p'_def j_def Let_def)
  have "mset p' = mset p"
    unfolding p'_def using Suc.prems j by (intro mset_swap_u8) auto
  moreover have len: "length p' = length p" by (simp add: p'_def)
  moreover have "n < length p'" using Suc.prems len by simp
  ultimately show ?case
    using Suc.IH [of p' s'] step by simp
qed

lemma length_identity_table: "length identity_table = 256"
  by (simp add: identity_table_def)

lemma unat_identity_table: "map unat identity_table = [0..<256]"
proof -
  have "unat (word_of_nat i :: u8) = i" if "i < 256" for i
    using that by (simp add: unat_of_nat)
  then have "map (\<lambda>i. unat (word_of_nat i :: u8)) [0..<256] = map (\<lambda>i. i) [0..<256]"
    by (intro map_cong) auto
  then show ?thesis by (simp add: identity_table_def comp_def)
qed

lemma shuffled_table_perm:
  assumes rng: "\<And>s. 0 \<le> fst (random s) \<and> fst (random s) < 1"
  shows "mset (map unat (fst (shuffled_table random s))) = mset [0..<256]"
    and "length (fst (shuffled_table random s)) = 256"
proof -
  have m: "mset (fst (shuffled_table random s)) = mset identity_table"
    and l: "length (fst (shuffled_table random s)) = length identity_table"
    using shuffle_mset [of random 255 identity_table s, OF rng]
    by (simp_all add: shuffled_table_def length_identity_table)
  from l show "length (fst (shuffled_table random s)) = 256"
    by (simp add: length_identity_table)
  have "mset (map unat (fst (shuffled_table random s))) = image_mset unat (mset identity_table)"
    using m by simp
  also have "\<dots> = mset (map unat identity_table)" by simp
  finally show "mset (map unat (fst (shuffled_table random s))) = mset [0..<256]"
    by (simp only: unat_identity_table)
qed

lemma and_255_int: "(k :: int) AND 255 = k mod 256"
proof -
  have "k AND mask 8 = take_bit 8 k" by (simp only: take_bit_eq_mask)
  then show ?thesis by (simp add: take_bit_eq_mod mask_eq_exp_minus_1)
qed

lemma duplicate_table_nth:
  assumes "length p = 256" "i < 512"
  shows "duplicate_table p ! i = p ! (i mod 256)"
proof -
  have "int i mod 256 = int (i mod 256)" by (simp add: zmod_int)
  then show ?thesis using assms
    by (simp add: duplicate_table_def and_255_int u8_get_def)
qed

lemma length_duplicate_table: "length (duplicate_table p) = 512"
  by (simp add: duplicate_table_def)

lemma createPerlin_table:
  "fst (createPerlin random s) = duplicate_table (fst (shuffled_table random s))"
  by (simp add: createPerlin_def split_beta)

lemma cell_range: "0 \<le> cell x \<and> cell x \<le> 255"
proof -
  have "(word_of_int \<lfloor>x\<rfloor> :: u32) AND 255 \<le> 255" by (rule word_and_le1)
  then have "uint ((word_of_int \<lfloor>x\<rfloor> :: u32) AND 255) \<le> uint (255 :: u32)"
    by (simp only: word_le_def)
  then show ?thesis by (simp add: cell_def)
qed

lemma uint_u8_range: "0 \<le> uint (b :: u8) \<and> uint b \<le> 255"
  using uint_lt2p [of b] by simp

lemma in_table_plus:
  assumes "length t = 512" "0 \<le> Y" "Y \<le> 256" "0 \<le> X" "X \<le> 256"
  shows "in_table (index_plus X (u8_get t Y))"
    and "\<exists>b. u8_at t (index_plus X (u8_get t Y)) = Some b"
proof -
  obtain b where b: "u8_get t Y = Some b" using assms by (simp add: u8_get_def)
  have "0 \<le> X + uint b \<and> X + uint b \<le> 511"
    using uint_u8_range [of b] assms by linarith
  then have r: "0 \<le> X + uint b" "X + uint b \<le> 511" "X + uint b < int (length t)"
    using assms(1) by simp_all
  show "in_table (index_plus X (u8_get t Y))"
    using r by (simp add: b index_plus_def in_table_def)
  show "\<exists>b. u8_at t (index_plus X (u8_get t Y)) = Some b"
    using u8_get_in [OF r(1) r(3)] by (simp add: b index_plus_def u8_at_def)
qed

lemma perlin_reads_in_table:
  assumes "length t = 512"
  shows "list_all in_table (perlin_reads t x y)"
    and "\<exists>aa ab ba bb. corner_hashes t (cell x) (cell y) = (Some aa, Some ab, Some ba, Some bb)"
proof -
  have X: "0 \<le> cell x" "cell x \<le> 256" "0 \<le> cell x + 1" "cell x + 1 \<le> 256"
    using cell_range [of x] by simp_all
  have Y: "0 \<le> cell y" "cell y \<le> 256" "0 \<le> cell y + 1" "cell y + 1 \<le> 256"
    using cell_range [of y] by simp_all
  have "in_table (Some (cell y))" "in_table (Some (cell y + 1))"
    using Y by (simp_all add: in_table_def)
  then show "list_all in_table (perlin_reads t x y)"
    using in_table_plus(1) [OF assms Y(1,2) X(1,2)] in_table_plus(1) [OF assms Y(3,4) X(1,2)]
      in_table_plus(1) [OF assms Y(1,2) X(3,4)] in_table_plus(1) [OF assms Y(3,4) X(3,4)]
    by (simp add: perlin_reads_def Let_def)
  show "\<exists>aa ab ba bb. corner_hashes t (cell x) (cell y) = (Some aa, Some ab, Some ba, Some bb)"
    using in_table_plus(2) [OF assms Y(1,2) X(1,2)] in_table_plus(2) [OF assms Y(3,4) X(1,2)]
      in_table_plus(2) [OF assms Y(1,2) X(3,4)] in_table_plus(2) [OF assms Y(3,4) X(3,4)]
    by (auto simp add: corner_hashes_def)
qed

text \<open>
  C3. Whenever every draw of the supplied generator lies in \<open>[0, 1)\<close>, the 256-entry table
  left by the Fisher-Yates loop holds every value of \<open>0..255\<close> exactly once, and the
  512-entry table satisfies \<open>permutation[i] = p[i mod 256]\<close> for all \<open>i < 512\<close>.
\<close>

theorem createPerlin_permutation:
  assumes "\<And>s. 0 \<le> fst (random s) \<and> fst (random s) < 1"
  shows "mset (map unat (fst (shuffled_table random s))) = mset [0..<256]
    \<and> distinct (fst (shuffled_table random s))
    \<and> length (fst (createPerlin random s)) = 512
    \<and> (\<forall>i<512. fst (createPerlin random s) ! i = fst (shuffled_table random s) ! (i mod 256))"
proof -
  let ?p = "fst (shuffled_table random s)"
  have m: "mset (map unat ?p) = mset [0..<256]" and l: "length ?p = 256"
    using shuffled_table_perm [of random s, OF assms] by simp_all
  have "distinct (map unat ?p)"
    using m distinct_upt mset_eq_imp_distinct_iff by blast
  then have "distinct ?p" by (simp add: distinct_map)
  then show ?thesis
    using m l by (simp add: createPerlin_table length_duplicate_table duplicate_table_nth)
qed

theorem createPerlin_permutation_witness:
  "0 \<le> fst (mulberry32_next (mulberry32 42)) \<and> fst (mulberry32_next (mulberry32 42)) < 1
    \<and> mset (map unat (fst (shuffled_table mulberry32_next (mulberry32 42)))) = mset [0..<256]
    \<and> distinct (fst (shuffled_table mulberry32_next (mulberry32 42)))
    \<and> length (fst (createPerlin mulberry32_next (mulberry32 42))) = 512
    \<and> fst (createPerlin mulberry32_next (mulberry32 42)) ! 300
          = fst (shuffled_table mulberry32_next (mulberry32 42)) ! (300 mod 256)"
  using createPerlin_permutation [of mulberry32_next "mulberry32 42"] mulberry32_next_range
  by simp

text \<open>
  C9. For the table built by \<open>createPerlin\<close> (from any generator), every index read by one
  evaluation of the noise function at any \<open>(x, y)\<close> is a number within \<open>[0, 511]\<close>, the table
  has 512 entries, and so none of the four corner reads is \<^verbatim>\<open>undefined\<close>.
\<close>

theorem perlin_reads_within_table:
  "length (fst (createPerlin random s)) = 512
   \<and> list_all in_table (perlin_reads (fst (createPerlin random s)) x y)
   \<and> (\<exists>aa ab ba bb. corner_hashes (fst (createPerlin random s)) (cell x) (cell y)
          = (Some aa, Some ab, Some ba, Some bb))"
proof -
  have l: "length (fst (createPerlin random s)) = 512"
    by (simp add: createPerlin_table length_duplicate_table)
  then show ?thesis
    using perlin_reads_in_table [OF l, of x y] by simp
qed

section \<open>The range of the noise function\<close>

lemma frac_range: "0 \<le> x - of_int \<lfloor>x\<rfloor> \<and> x - of_int \<lfloor>x\<rfloor> < (1 :: real)"
  by linarith

lemma fade_nonneg:
  assumes "0 \<le> t"
  shows "0 \<le> fade t"
proof -
  have "t * (t * 6 - 15) + 10 = 6 * (t - 5 / 4)\<^sup>2 + 5 / 8"
    by (simp add: power2_eq_square algebra_simps)
  then have a: "0 \<le> t * (t * 6 - 15) + 10" by simp
  have b: "0 \<le> t * t * t" using assms by simp
  show ?thesis unfolding fade_def by (rule mult_nonneg_nonneg [OF b a])
qed

lemma fade_le_one:
  assumes "0 \<le> t" "t \<le> 1"
  shows "fade t \<le> 1"
proof -
  have e: "1 - fade t = (1 - t) * (1 - t) * (1 - t) * (6 * t * t + 3 * t + 1)"
    by (simp add: fade_def algebra_simps)
  have "0 \<le> (1 - t) * (1 - t) * (1 - t)" using assms by simp
  moreover have "0 \<le> 6 * t * t + 3 * t + 1" using assms by simp
  ultimately have "0 \<le> 1 - fade t" unfolding e by (rule mult_nonneg_nonneg)
  then show ?thesis by simp
qed

lemma tent_eq:
  "tent t = 1 / 2 - 2 * (t - 1 / 2)\<^sup>2 * (6 * (t * (1 - t))\<^sup>2 + 2 * (t * (1 - t)) + 1)"
  by (simp add: tent_def fade_def power2_eq_square algebra_simps)

lemma tent_le_half:
  assumes "0 \<le> t" "t \<le> 1"
  shows "tent t \<le> 1 / 2"
proof -
  have "0 \<le> t * (1 - t)" using assms by simp
  then have "0 \<le> 6 * (t * (1 - t))\<^sup>2 + 2 * (t * (1 - t)) + 1" by simp
  then have "0 \<le> 2 * (t - 1 / 2)\<^sup>2 * (6 * (t * (1 - t))\<^sup>2 + 2 * (t * (1 - t)) + 1)"
    by simp
  then show ?thesis unfolding tent_eq by linarith
qed

lemma tent_less_half:
  assumes "0 \<le> t" "t \<le> 1" "t \<noteq> 1 / 2"
  shows "tent t < 1 / 2"
proof -
  have "0 \<le> t * (1 - t)" using assms by simp
  then have a: "0 < 6 * (t * (1 - t))\<^sup>2 + 2 * (t * (1 - t)) + 1"
    by (simp add: add_nonneg_pos)
  have b: "0 < 2 * (t - 1 / 2)\<^sup>2" using assms(3) by simp
  have "0 < 2 * (t - 1 / 2)\<^sup>2 * (6 * (t * (1 - t))\<^sup>2 + 2 * (t * (1 - t)) + 1)"
    by (rule mult_pos_pos [OF b a])
  then show ?thesis unfolding tent_eq by linarith
qed

lemma lerp_mono:
  assumes "0 \<le> t" "t \<le> 1" "a \<le> a'" "b \<le> b'"
  shows "lerp t a b \<le> lerp t a' b'"
proof -
  have e: "lerp t p q = (1 - t) * p + t * q" for p q
    by (simp add: lerp_def algebra_simps)
  have "(1 - t) * a \<le> (1 - t) * a'" using assms by (intro mult_left_mono) simp_all
  moreover have "t * b \<le> t * b'" using assms by (intro mult_left_mono) simp_all
  ultimately show ?thesis unfolding e by linarith
qed

lemma lerp_tent:
  "lerp v (lerp u (a + b) (1 - a + b)) (lerp u (a + (1 - b)) (1 - a + (1 - b)))
   = (a + u * (1 - 2 * a)) + (b + v * (1 - 2 * b))"
  by (simp add: lerp_def algebra_simps)

lemma lerp_neg: "lerp t (- a) (- b) = - lerp t a b"
  by (simp add: lerp_def algebra_simps)

lemma grad_cases:
  "grad hash x y = x + y \<or> grad hash x y = y - x \<or> grad hash x y = - x - y"
proof -
  define h where "h = (case hash of None \<Rightarrow> 0 | Some b \<Rightarrow> unat (b AND 3))"
  have "h \<le> 3"
  proof (cases hash)
    case None
    then show ?thesis by (simp add: h_def)
  next
    case (Some b)
    have "b AND 3 \<le> 3" by (rule word_and_le1)
    then have "unat (b AND 3) \<le> unat (3 :: u8)" by (simp only: word_le_nat_alt)
    then show ?thesis using Some by (simp add: h_def)
  qed
  then consider "h = 0" | "h = 1" | "h = 2" | "h = 3" by linarith
  then show ?thesis
  proof cases
    case 1 then show ?thesis unfolding grad_def h_def [symmetric] by simp
  next
    case 2 then show ?thesis unfolding grad_def h_def [symmetric] by simp
  next
    case 3 then show ?thesis unfolding grad_def h_def [symmetric] by simp
  next
    case 4 then show ?thesis unfolding grad_def h_def [symmetric] by simp
  qed
qed

lemma grad_abs: "\<bar>grad hash x y\<bar> \<le> \<bar>x\<bar> + \<bar>y\<bar>"
  using grad_cases [of hash x y] by linarith


lemma perlin_unfold:
  "\<exists>g00 g10 g01 g11.
     perlin t x y = (lerp (fade (y - of_int \<lfloor>y\<rfloor>))
        (lerp (fade (x - of_int \<lfloor>x\<rfloor>)) g00 g10)
        (lerp (fade (x - of_int \<lfloor>x\<rfloor>)) g01 g11) + 1) / 2
   \<and> \<bar>g00\<bar> \<le> \<bar>x - of_int \<lfloor>x\<rfloor>\<bar> + \<bar>y - of_int \<lfloor>y\<rfloor>\<bar>
   \<and> \<bar>g10\<bar> \<le> \<bar>x - of_int \<lfloor>x\<rfloor> - 1\<bar> + \<bar>y - of_int \<lfloor>y\<rfloor>\<bar>
   \<and> \<bar>g01\<bar> \<le> \<bar>x - of_int \<lfloor>x\<rfloor>\<bar> + \<bar>y - of_int \<lfloor>y\<rfloor> - 1\<bar>
   \<and> \<bar>g11\<bar> \<le> \<bar>x - of_int \<lfloor>x\<rfloor> - 1\<bar> + \<bar>y - of_int \<lfloor>y\<rfloor> - 1\<bar>
   \<and> (g01 = (x - of_int \<lfloor>x\<rfloor>) + (y - of_int \<lfloor>y\<rfloor> - 1)
      \<or> g01 = (y - of_int \<lfloor>y\<rfloor> - 1) - (x - of_int \<lfloor>x\<rfloor>)
      \<or> g01 = - (x - of_int \<lfloor>x\<rfloor>) - (y - of_int \<lfloor>y\<rfloor> - 1))"
proof -
  obtain aa ab ba bb where h: "corner_hashes t (cell x) (cell y) = (aa, ab, ba, bb)"
    by (cases "corner_hashes t (cell x) (cell y)")
  show ?thesis
    unfolding perlin_def Let_def h prod.case
    using grad_abs grad_cases by blast
qed

lemma blend_bounds:
  fixes a b :: real
  assumes a: "0 \<le> a" "a < 1" and b: "0 \<le> b" "b < 1"
    and g: "\<bar>g00\<bar> \<le> \<bar>a\<bar> + \<bar>b\<bar>" "\<bar>g10\<bar> \<le> \<bar>a - 1\<bar> + \<bar>b\<bar>"
      "\<bar>g01\<bar> \<le> \<bar>a\<bar> + \<bar>b - 1\<bar>" "\<bar>g11\<bar> \<le> \<bar>a - 1\<bar> + \<bar>b - 1\<bar>"
    and c: "g01 = a + (b - 1) \<or> g01 = (b - 1) - a \<or> g01 = - a - (b - 1)"
  shows "- 1 \<le> lerp (fade b) (lerp (fade a) g00 g10) (lerp (fade a) g01 g11)"
    and "lerp (fade b) (lerp (fade a) g00 g10) (lerp (fade a) g01 g11) < 1"
proof -
  let ?u = "fade a" and ?v = "fade b"
  let ?n = "lerp ?v (lerp ?u g00 g10) (lerp ?u g01 g11)"
  have u: "0 \<le> ?u" "?u \<le> 1" using a by (simp_all add: fade_nonneg fade_le_one)
  have v: "0 \<le> ?v" "?v \<le> 1" using b by (simp_all add: fade_nonneg fade_le_one)
  have up: "g00 \<le> a + b" "g10 \<le> 1 - a + b" "g01 \<le> a + (1 - b)" "g11 \<le> 1 - a + (1 - b)"
    using a b g by linarith+
  have lo: "- (a + b) \<le> g00" "- (1 - a + b) \<le> g10" "- (a + (1 - b)) \<le> g01"
    "- (1 - a + (1 - b)) \<le> g11"
    using a b g by linarith+
  have ta: "tent a \<le> 1 / 2" and tb: "tent b \<le> 1 / 2"
    using a b tent_le_half [of a] tent_le_half [of b] by linarith+
  have "?n \<le> lerp ?v (lerp ?u (a + b) (1 - a + b)) (lerp ?u (a + (1 - b)) (1 - a + (1 - b)))"
    by (intro lerp_mono u v up)
  also have "\<dots> = tent a + tent b"
    by (simp only: lerp_tent tent_def mult.commute)
  finally have le: "?n \<le> tent a + tent b" .
  have "lerp ?v (lerp ?u (- (a + b)) (- (1 - a + b)))
          (lerp ?u (- (a + (1 - b))) (- (1 - a + (1 - b)))) \<le> ?n"
    by (intro lerp_mono u v lo)
  then have "- (tent a + tent b) \<le> ?n"
    by (simp only: lerp_neg lerp_tent tent_def)
  then show "- 1 \<le> ?n" using ta tb by linarith
  show "?n < 1"
  proof (cases "a = 1 / 2 \<and> b = 1 / 2")
    case False
    then have "tent a < 1 / 2 \<or> tent b < 1 / 2"
      using a b tent_less_half [of a] tent_less_half [of b] by auto
    then show ?thesis using le ta tb by linarith
  next
    case True
    have h: "fade (1 / 2) = 1 / 2" by (simp add: fade_def)
    have ab: "a = 1 / 2" "b = 1 / 2" using True by blast+
    have f: "?u = 1 / 2" "?v = 1 / 2" unfolding ab by (rule h)+
    have "g01 \<le> 0" using c True by auto
    moreover have "g00 \<le> 1" "g10 \<le> 1" "g11 \<le> 1" using up True by simp_all
    ultimately have lt: "(g00 + g10 + g01 + g11) / 4 < 1" by simp
    have "lerp (1 / 2) (lerp (1 / 2) g00 g10) (lerp (1 / 2) g01 g11)
        = (g00 + g10 + g01 + g11) / 4"
      by (simp add: lerp_def field_simps)
    then show ?thesis unfolding f using lt by simp
  qed
qed

text \<open>
  C4. For all real \<open>x\<close> and \<open>y\<close>, and whatever the table holds, the noise function returns
  a value in \<open>[0, 1)\<close>.
\<close>

theorem perlin_range: "0 \<le> perlin t x y \<and> perlin t x y < 1"
proof -
  let ?a = "x - of_int \<lfloor>x\<rfloor>" and ?b = "y - of_int \<lfloor>y\<rfloor>"
  obtain g00 g10 g01 g11 where
    p: "perlin t x y = (lerp (fade ?b) (lerp (fade ?a) g00 g10) (lerp (fade ?a) g01 g11) + 1) / 2"
    and g: "\<bar>g00\<bar> \<le> \<bar>?a\<bar> + \<bar>?b\<bar>" "\<bar>g10\<bar> \<le> \<bar>?a - 1\<bar> + \<bar>?b\<bar>"
      "\<bar>g01\<bar> \<le> \<bar>?a\<bar> + \<bar>?b - 1\<bar>" "\<bar>g11\<bar> \<le> \<bar>?a - 1\<bar> + \<bar>?b - 1\<bar>"
    and c: "g01 = ?a + (?b - 1) \<or> g01 = (?b - 1) - ?a \<or> g01 = - ?a - (?b - 1)"
    using perlin_unfold [of t x y] by blast
  have a: "0 \<le> ?a" "?a < 1" and b: "0 \<le> ?b" "?b < 1"
    using frac_range [of x] frac_range [of y] by simp_all
  show ?thesis
    unfolding p using blend_bounds [OF a b g c] by simp
qed

section \<open>Rounding to binary64: the error of one operation\<close>

lemma exponent_bounds:
  assumes "0 < y"
  shows "2 powi exponent y \<le> y \<and> y < 2 powi (exponent y + 1)"
proof (cases "1 \<le> y")
  case True
  define n where "n = nat \<lfloor>y\<rfloor>"
  define k where "k = floorlog 2 n"
  have n: "0 < n" "real n \<le> y" "y < real n + 1"
    using True by (simp_all add: n_def)
  have b: "2 ^ (k - 1) \<le> n" "n < 2 ^ k"
    using floorlog_bounds [of n 2] n(1) by (simp_all add: k_def)
  have k: "0 < k" using n(1) by (simp add: k_def floorlog_def)
  have e: "exponent y = int k - 1" using True by (simp add: exponent_def n_def k_def)
  have e1: "(2 :: real) powi (int k - 1) = 2 ^ (k - 1)"
    using k by (simp add: power_int_def nat_diff_distrib')
  have "(2 :: real) ^ (k - 1) \<le> real n"
    using of_nat_mono [OF b(1), where ?'a = real] by simp
  then have lo: "(2 :: real) ^ (k - 1) \<le> y" using n(2) by linarith
  have n1: "n + 1 \<le> 2 ^ k" using b(2) by simp
  have "real n + 1 \<le> 2 ^ k"
    using of_nat_mono [OF n1, where ?'a = real] by simp
  then have hi: "y < 2 ^ k" using n(3) by linarith
  show ?thesis unfolding e using lo hi by (simp add: e1)
next
  case False
  then have y1: "y < 1" by simp
  define m where "m = \<lceil>1 / y\<rceil>"
  define n where "n = nat (m - 1)"
  define k where "k = floorlog 2 n"
  have "1 < 1 / y" using assms y1 by simp
  then have m2: "2 \<le> m" unfolding m_def by linarith
  have mc: "1 / y \<le> of_int m" "of_int m - 1 < 1 / y"
    unfolding m_def by linarith+
  have n: "0 < n" "int n = m - 1" using m2 by (simp_all add: n_def)
  have b: "2 ^ (k - 1) \<le> n" "n < 2 ^ k"
    using floorlog_bounds [of n 2] n(1) by (simp_all add: k_def)
  have k: "0 < k" using n(1) by (simp add: k_def floorlog_def)
  have e: "exponent y = - int k" using False by (simp add: exponent_def m_def n_def k_def)
  have n1: "n + 1 \<le> 2 ^ k" using b(2) by simp
  have "int n + 1 \<le> 2 ^ k"
    using of_nat_mono [OF n1, where ?'a = int] by simp
  then have mk: "m \<le> 2 ^ k" using n(2) by simp
  have "(of_int m :: real) \<le> 2 ^ k"
    using of_int_le_iff [of m "2 ^ k", where ?'a = real] mk by simp
  then have "1 / y \<le> 2 ^ k" using mc(1) by linarith
  then have lo: "1 / 2 ^ k \<le> y" using assms by (simp add: field_simps)
  have "(2 :: int) ^ (k - 1) \<le> int n"
    using of_nat_mono [OF b(1), where ?'a = int] by simp
  then have km: "(2 :: int) ^ (k - 1) \<le> m - 1" using n(2) by simp
  have "(2 :: real) ^ (k - 1) \<le> of_int m - 1"
    using of_int_le_iff [of "2 ^ (k - 1)" "m - 1", where ?'a = real] km by simp
  then have "(2 :: real) ^ (k - 1) < 1 / y" using mc(2) by linarith
  then have hi: "y < 1 / 2 ^ (k - 1)" using assms by (simp add: field_simps)
  have p1: "(2 :: real) powi (- int k) = 1 / 2 ^ k"
    by (simp add: power_int_minus_divide)
  have "- int k + 1 = - int (k - 1)" using k by simp
  then have p2: "(2 :: real) powi (- int k + 1) = 1 / 2 ^ (k - 1)"
    by (simp only: power_int_minus_divide power_int_of_nat)
  show ?thesis unfolding e p1 p2 using lo hi by simp
qed

lemma round_even_lower: "z - 1 / 2 \<le> of_int (round_even z)"
  unfolding round_even_def Let_def by (auto; linarith)

lemma double_lower:
  assumes "1 / 2 ^ 1022 \<le> y"
  shows "y - y / 2 ^ 53 \<le> double y"
proof -
  have y: "0 < y" using assms by (rule less_le_trans [rotated]) simp
  define e where "e = exponent y"
  have eb: "2 powi e \<le> y" "y < 2 powi (e + 1)"
    using exponent_bounds [OF y] by (simp_all add: e_def)
  have "- 1022 \<le> e"
  proof (rule ccontr)
    assume "\<not> - 1022 \<le> e"
    then have "e + 1 \<le> - 1022" by simp
    then have "(2 :: real) powi (e + 1) \<le> 2 powi (- 1022)"
      by (intro power_int_increasing) simp_all
    also have "\<dots> = 1 / 2 ^ 1022" by (simp add: power_int_minus_divide)
    finally show False using eb(2) assms by linarith
  qed
  then have q: "quantum y = 2 powi (e - 52)" by (simp add: quantum_def e_def)
  define q where "q = (2 :: real) powi (e - 52)"
  have qp: "0 < q" by (simp add: q_def)
  have "q = 2 powi e * 2 powi (- 52)"
    unfolding q_def using power_int_add [of "2 :: real" e "- 52"] by simp
  then have qe: "q = 2 powi e / 2 ^ 52" by (simp add: power_int_minus_divide)
  have "q / 2 \<le> y / 2 ^ 53" unfolding qe using eb(1) by (simp add: field_simps)
  moreover have "(y / q - 1 / 2) * q \<le> of_int (round_even (y / q)) * q"
    using round_even_lower [of "y / q"] qp by (intro mult_right_mono) simp_all
  moreover have "(y / q - 1 / 2) * q = y - q / 2" using qp by (simp add: field_simps)
  moreover have "double y = of_int (round_even (y / q)) * q"
    using y by (simp add: double_def q q_def)
  ultimately show ?thesis by linarith
qed

text \<open>
  \<^verbatim>\<open>Math.floor(720 * 0.7)\<close> is 503, not 504: \<open>0.7\<close> is not a binary64 number, and the
  product of the nearest one with 720 is rounded to a number below 504.
\<close>

lemma embers_count_720: "\<lfloor>double (720 * double 0.7)\<rfloor> = 503"
  by code_simp

lemma double_zero: "double 0 = 0"
  by (simp add: double_def)

section \<open>The drawing passes: calls added, fields kept, termination\<close>


lemma prepend_fields [simp]:
  "ctx (prepend pre dc) = pre @ ctx dc"
  "width (prepend pre dc) = width dc"
  "height (prepend pre dc) = height dc"
  "random_state (prepend pre dc) = random_state dc"
  "perlin_table (prepend pre dc) = perlin_table dc"
  by (simp_all add: prepend_def)

lemma fresh_fields [simp]:
  "ctx (fresh dc) = []"
  "width (fresh dc) = width dc"
  "height (fresh dc) = height dc"
  "random_state (fresh dc) = random_state dc"
  "perlin_table (fresh dc) = perlin_table dc"
  by (simp_all add: fresh_def)

lemma draw_random_prepend:
  "draw_random (prepend pre dc) = (fst (draw_random dc), prepend pre (snd (draw_random dc)))"
  by (simp add: draw_random_def prepend_def split_beta)

lemma draw_random_fields [simp]:
  "ctx (snd (draw_random dc)) = ctx dc"
  "width (snd (draw_random dc)) = width dc"
  "height (snd (draw_random dc)) = height dc"
  "perlin_table (snd (draw_random dc)) = perlin_table dc"
  by (simp_all add: draw_random_def split_beta)

lemma emit_prepend: "emit cs (prepend pre dc) = prepend pre (emit cs dc)"
  by (simp add: emit_def prepend_def)

lemma emit_fields [simp]:
  "ctx (emit cs dc) = ctx dc @ cs"
  "width (emit cs dc) = width dc"
  "height (emit cs dc) = height dc"
  "random_state (emit cs dc) = random_state dc"
  "perlin_table (emit cs dc) = perlin_table dc"
  by (simp_all add: emit_def)

lemmas prepend_simps = draw_random_prepend emit_prepend split_beta Let_def

lemma fillBackground_prepend: "fillBackground (prepend pre dc) = prepend pre (fillBackground dc)"
  by (simp add: fillBackground_def prepend_simps)

lemma fireball_prepend:
  "fireball (prepend pre dc) = map_sum id (prepend pre) (fireball dc)"
  by (simp add: fireball_def prepend_simps)

lemma fireballs_prepend:
  "fireballs n (prepend pre dc) = map_sum id (prepend pre) (fireballs n dc)"
proof (induction n arbitrary: dc)
  case 0
  show ?case by simp
next
  case (Suc n)
  show ?case by (cases "fireball dc") (simp_all add: fireball_prepend Suc)
qed

lemma ember_prepend: "ember (prepend pre dc) = prepend pre (ember dc)"
  by (simp add: ember_def prepend_simps)

lemma terrain_structure_prepend:
  "terrain_structure n hz i (prepend pre dc) = prepend pre (terrain_structure n hz i dc)"
  by (simp add: terrain_structure_def prepend_simps)

lemma dust_prepend: "dust (prepend pre dc) = prepend pre (dust dc)"
  by (simp add: dust_def prepend_simps)

lemma funpow_prepend:
  assumes "\<And>dc. f (prepend pre dc) = prepend pre (f dc)"
  shows "(f ^^ n) (prepend pre dc) = prepend pre ((f ^^ n) dc)"
  by (induction n) (simp_all add: assms)

lemma fold_prepend:
  assumes "\<And>i dc. f i (prepend pre dc) = prepend pre (f i dc)"
  shows "fold f is (prepend pre dc) = prepend pre (fold f is dc)"
  by (induction "is" arbitrary: dc) (simp_all add: assms)

lemma drawExplosion_prepend:
  "drawExplosion (prepend pre dc) = map_sum id (prepend pre) (drawExplosion dc)"
  by (simp add: drawExplosion_def draw_random_prepend split_beta Let_def fireballs_prepend)

lemma drawEmbers_prepend: "drawEmbers (prepend pre dc) = prepend pre (drawEmbers dc)"
  by (simp add: drawEmbers_def Let_def funpow_prepend [of ember, OF ember_prepend])

lemma drawAtmosphericDust_prepend:
  "drawAtmosphericDust (prepend pre dc) = prepend pre (drawAtmosphericDust dc)"
  by (simp add: drawAtmosphericDust_def Let_def funpow_prepend [of dust, OF dust_prepend])

subsection \<open>Fields that no pass changes\<close>

lemma same_scene_refl [simp]: "same_scene dc dc"
  by (simp add: same_scene_def)

lemma same_scene_trans: "same_scene a b \<Longrightarrow> same_scene b c \<Longrightarrow> same_scene a c"
  by (simp add: same_scene_def)



lemma fillBackground_same: "same_scene dc (fillBackground dc)"
  by (simp add: same_scene_def fillBackground_def Let_def)

lemma fireball_same: "fireball dc = Inr dc' \<Longrightarrow> same_scene dc dc'"
  by (auto simp add: same_scene_def fireball_def Let_def split_beta split: if_splits)

lemma fireballs_same: "fireballs n dc = Inr dc' \<Longrightarrow> same_scene dc dc'"
proof (induction n arbitrary: dc)
  case 0
  then show ?case by simp
next
  case (Suc n)
  then obtain d where d: "fireball dc = Inr d" and r: "fireballs n d = Inr dc'"
    by (cases "fireball dc") simp_all
  show ?case using fireball_same [OF d] Suc.IH [OF r] by (rule same_scene_trans)
qed




lemma draw_random_same: "same_scene dc (snd (draw_random dc))"
  by (simp add: same_scene_def)

lemma drawExplosion_same:
  assumes "drawExplosion dc = Inr dc'"
  shows "same_scene dc dc'"
proof -
  have "fireballs (nat (3 + \<lfloor>fst (draw_random dc) * 2\<rfloor>)) (snd (draw_random dc)) = Inr dc'"
    using assms by (simp add: drawExplosion_def Let_def split_beta)
  then have "same_scene (snd (draw_random dc)) dc'" by (rule fireballs_same)
  with draw_random_same show ?thesis by (rule same_scene_trans)
qed



subsection \<open>The explosion: where the context throws\<close>

lemma draw_random_range: "0 \<le> fst (draw_random dc) \<and> fst (draw_random dc) < 1"
  using mulberry32_next_range [of "random_state dc"]
  by (simp add: draw_random_def split_beta)

lemma radius_sign:
  fixes w r :: real
  assumes "0 \<le> r"
  shows "w * (0.12 + r * 0.08) < 0 \<longleftrightarrow> w < 0"
    and "w * (0.12 + r * 0.08) * 0.1 < 0 \<longleftrightarrow> w < 0"
proof -
  have "0 < 0.12 + r * 0.08" using assms by simp
  then show "w * (0.12 + r * 0.08) < 0 \<longleftrightarrow> w < 0"
    by (simp add: mult_less_0_iff not_less [symmetric] less_imp_le)
  then show "w * (0.12 + r * 0.08) * 0.1 < 0 \<longleftrightarrow> w < 0"
    by (simp add: mult_less_0_iff)
qed

lemma fireball_throws: "width dc < 0 \<Longrightarrow> fireball dc = Inl IndexSizeError"
  using radius_sign [of "fst (draw_random (snd (draw_random (snd (draw_random dc)))))" "width dc"]
    draw_random_range [of "snd (draw_random (snd (draw_random dc)))"]
  by (simp add: fireball_def Let_def split_beta)

lemma fireball_returns: "0 \<le> width dc \<Longrightarrow> \<exists>dc'. fireball dc = Inr dc'"
  using radius_sign [of "fst (draw_random (snd (draw_random (snd (draw_random dc)))))" "width dc"]
    draw_random_range [of "snd (draw_random (snd (draw_random dc)))"]
  by (simp add: fireball_def Let_def split_beta)


lemma fireballs_returns: "0 \<le> width dc \<Longrightarrow> \<exists>dc'. fireballs n dc = Inr dc'"
proof (induction n arbitrary: dc)
  case 0
  show ?case by simp
next
  case (Suc n)
  obtain d where d: "fireball dc = Inr d" using fireball_returns [OF Suc.prems] by blast
  have "width d = width dc" using fireball_same [OF d] by (simp add: same_scene_def)
  then have "\<exists>dc'. fireballs n d = Inr dc'" using Suc.prems by (intro Suc.IH) simp
  then show ?case using d by simp
qed


lemma drawExplosion_returns: "0 \<le> width dc \<Longrightarrow> \<exists>dc'. drawExplosion dc = Inr dc'"
  using fireballs_returns [of "snd (draw_random dc)"]
  by (simp add: drawExplosion_def Let_def split_beta)


lemma drawExplosion_throws:
  assumes "width dc < 0"
  shows "drawExplosion dc = Inl IndexSizeError"
proof -
  have "0 \<le> \<lfloor>fst (draw_random dc) * 2\<rfloor>" using draw_random_range [of dc] by simp
  then have "0 < nat (3 + \<lfloor>fst (draw_random dc) * 2\<rfloor>)" by linarith
  then obtain n where n: "nat (3 + \<lfloor>fst (draw_random dc) * 2\<rfloor>) = Suc n"
    using gr0_implies_Suc by blast
  have "fireball (snd (draw_random dc)) = Inl IndexSizeError"
    using assms by (intro fireball_throws) simp
  then show ?thesis by (simp add: drawExplosion_def Let_def split_beta n)
qed


subsection \<open>The curve loop\<close>

text \<open>
  Where the loop returns, it has added \<^verbatim>\<open>lineTo\<close> calls only, and the same ones whatever
  calls were made before.
\<close>

lemma curve_loop_lines:
  assumes "curve_loop y w step x cx = Some r"
  shows "\<exists>xs. r = cx @ map (\<lambda>x. LineTo x (y x)) xs
              \<and> (\<forall>cx'. curve_loop y w step x cx' = Some (cx' @ map (\<lambda>x. LineTo x (y x)) xs))"
proof -
  note R = curve_loop.raw_induct
      [where P = "\<lambda>y w step x cx r. \<exists>xs. r = cx @ map (\<lambda>x. LineTo x (y x)) xs
              \<and> (\<forall>cx'. curve_loop y w step x cx' = Some (cx' @ map (\<lambda>x. LineTo x (y x)) xs))"
         and xa = "((((y, w), step), x), cx)" and ya = r, unfolded prod.case]
  show ?thesis
  proof (rule R [OF _ assms])
    fix loop :: "(real \<Rightarrow> real) \<Rightarrow> real \<Rightarrow> real \<Rightarrow> real \<Rightarrow> ctx2d \<Rightarrow> ctx2d option"
      and y w step x cx r
    assume ih: "\<And>y w step x cx r. loop y w step x cx = Some r \<Longrightarrow>
        \<exists>xs. r = cx @ map (\<lambda>x. LineTo x (y x)) xs
              \<and> (\<forall>cx'. curve_loop y w step x cx' = Some (cx' @ map (\<lambda>x. LineTo x (y x)) xs))"
      and eq: "(if x \<le> w then loop y w step (double (x + step)) (cx @ [LineTo x (y x)])
                else Some cx) = Some r"
    show "\<exists>xs. r = cx @ map (\<lambda>x. LineTo x (y x)) xs
              \<and> (\<forall>cx'. curve_loop y w step x cx' = Some (cx' @ map (\<lambda>x. LineTo x (y x)) xs))"
    proof (cases "x \<le> w")
      case True
      then have "loop y w step (double (x + step)) (cx @ [LineTo x (y x)]) = Some r"
        using eq by simp
      then obtain xs where r: "r = (cx @ [LineTo x (y x)]) @ map (\<lambda>x. LineTo x (y x)) xs"
        and a: "\<And>cx'. curve_loop y w step (double (x + step)) cx'
                  = Some (cx' @ map (\<lambda>x. LineTo x (y x)) xs)"
        using ih by blast
      have "r = cx @ map (\<lambda>x. LineTo x (y x)) (x # xs)" using r by simp
      moreover have "curve_loop y w step x cx' = Some (cx' @ map (\<lambda>x. LineTo x (y x)) (x # xs))"
        for cx'
        using True a [of "cx' @ [LineTo x (y x)]"] by (subst curve_loop.simps) simp
      ultimately show ?thesis by blast
    next
      case False
      then have "r = cx @ map (\<lambda>x. LineTo x (y x)) []" using eq by simp
      moreover have "curve_loop y w step x cx' = Some (cx' @ map (\<lambda>x. LineTo x (y x)) [])"
        for cx'
        using False by (subst curve_loop.simps) simp
      ultimately show ?thesis by blast
    qed
  qed
qed

lemma curve_loop_prepend:
  "curve_loop y w step x (pre @ cx) = map_option ((@) pre) (curve_loop y w step x cx)"
proof (cases "curve_loop y w step x cx")
  case (Some r)
  then show ?thesis using curve_loop_lines [OF Some] by auto
next
  case None
  show ?thesis
  proof (cases "curve_loop y w step x (pre @ cx)")
    case (Some r')
    then show ?thesis using curve_loop_lines [OF Some] None by auto
  next
    case n: None
    then show ?thesis using None by simp
  qed
qed

text \<open>With the step 0 the loop does not end: the width 0.\<close>

lemma curve_loop_stuck:
  assumes "curve_loop y w step x cx = Some r"
  shows "\<not> (step = 0 \<and> x = 0 \<and> 0 \<le> w)"
proof -
  note R = curve_loop.raw_induct
      [where P = "\<lambda>y w step x cx r. \<not> (step = 0 \<and> x = 0 \<and> 0 \<le> w)"
         and xa = "((((y, w), step), x), cx)" and ya = r, unfolded prod.case]
  show ?thesis
  proof (rule R [OF _ assms])
    fix loop :: "(real \<Rightarrow> real) \<Rightarrow> real \<Rightarrow> real \<Rightarrow> real \<Rightarrow> ctx2d \<Rightarrow> ctx2d option"
      and y w step x cx r
    assume ih: "\<And>y w step x cx r. loop y w step x cx = Some r
                  \<Longrightarrow> \<not> (step = 0 \<and> x = 0 \<and> 0 \<le> w)"
      and eq: "(if x \<le> w then loop y w step (double (x + step)) (cx @ [LineTo x (y x)])
                else Some cx) = Some r"
    show "\<not> (step = 0 \<and> x = 0 \<and> 0 \<le> w)"
    proof
      assume a: "step = 0 \<and> x = 0 \<and> 0 \<le> w"
      then have "loop y w step (double (x + step)) (cx @ [LineTo x (y x)]) = Some r"
        using eq by simp
      then have "\<not> (step = 0 \<and> double (x + step) = 0 \<and> 0 \<le> w)" by (rule ih)
      then show False using a by (simp add: double_zero)
    qed
  qed
qed

lemma curve_loop_zero: "curve_loop y 0 0 0 cx = None"
proof (cases "curve_loop y 0 0 0 cx")
  case None then show ?thesis .
next
  case (Some r)
  then show ?thesis using curve_loop_stuck [of y 0 0 0 cx r] by simp
qed

text \<open>
  For an ordinary width the loop ends. The rounded step is at least half the exact one, and
  every rounded sum \<open>x + step\<close> with \<open>0 \<le> x \<le> w\<close> is at least \<open>x + step / 2\<close>: the
  abscissa has passed \<open>w\<close> after at most \<open>4 * n + 1\<close> iterations.
\<close>

lemma tiny_positive: "(0 :: real) < 1 / 2 ^ 1022"
  by simp

lemma step_lower:
  fixes w :: real
  assumes "1 / 2 ^ 1000 \<le> w" and "0 < n" and "n \<le> 1000"
  shows "1 / 2 ^ 1022 \<le> w / (2 * real n)" and "w / (2 * real n) \<le> double (w / real n)"
proof -
  have w: "0 < w" using assms(1) by (rule less_le_trans [rotated]) simp
  have n: "0 < real n" "real n \<le> 1000" using assms(2,3) by simp_all
  have "(1 / 2 ^ 1000) / (2 * 1000) \<le> w / (2 * 1000)"
    using assms(1) by (rule divide_right_mono) simp
  also have "w / (2 * 1000) \<le> w / (2 * real n)"
    using w n by (intro divide_left_mono) simp_all
  finally have a: "(1 / 2 ^ 1000) / (2 * 1000) \<le> w / (2 * real n)" .
  have b: "(1 :: real) / 2 ^ 1022 \<le> (1 / 2 ^ 1000) / (2 * 1000)" by simp
  show c: "1 / 2 ^ 1022 \<le> w / (2 * real n)" using a b by (rule order_trans [rotated])
  define q where "q = w / real n"
  have q: "0 < q" "w / (2 * real n) = q / 2" using w n by (simp_all add: q_def)
  have "1 / 2 ^ 1022 \<le> q" using c q by linarith
  then have "q - q / 2 ^ 53 \<le> double q" by (rule double_lower)
  moreover have "q / 2 ^ 53 \<le> q / 2" using q(1) by simp
  ultimately show "w / (2 * real n) \<le> double (w / real n)"
    unfolding q(2) q_def [symmetric] by linarith
qed

lemma step_progress:
  fixes w x :: real
  assumes "1 / 2 ^ 1000 \<le> w" and "0 < n" and "n \<le> 1000" and "0 \<le> x" and "x \<le> w"
  shows "x + double (w / real n) / 2 \<le> double (x + double (w / real n))"
proof -
  define s where "s = double (w / real n)"
  have l: "1 / 2 ^ 1022 \<le> w / (2 * real n)" "w / (2 * real n) \<le> s"
    unfolding s_def using step_lower [OF assms(1-3)] by blast+
  have s: "0 < s" using l tiny_positive by linarith
  have "w \<le> (2 * real n) * s" using l(2) assms(2) by (simp add: field_simps)
  also have "\<dots> \<le> (2 * 1000) * s"
    using assms(3) s by (intro mult_right_mono) simp_all
  finally have ws: "w \<le> 2000 * s" by simp
  have "1 / 2 ^ 1022 \<le> x + s" using l assms(4) by linarith
  then have "(x + s) - (x + s) / 2 ^ 53 \<le> double (x + s)" by (rule double_lower)
  moreover have "(x + s) / 2 ^ 53 \<le> s / 2" using ws assms(5) s by simp
  ultimately show ?thesis unfolding s_def [symmetric] by linarith
qed

lemma curve_loop_fuel:
  assumes "0 \<le> step"
    and "\<And>x. 0 \<le> x \<Longrightarrow> x \<le> w \<Longrightarrow> x + step / 2 \<le> double (x + step)"
  shows "0 \<le> x \<Longrightarrow> w < x + real fuel * (step / 2) \<Longrightarrow>
    curve_loop y w step x cx
      = Some (cx @ map (\<lambda>x. LineTo x (y x)) (abscissas_from fuel w step x))"
proof (induction fuel arbitrary: x cx)
  case 0
  then show ?case by (subst curve_loop.simps) simp
next
  case (Suc fuel)
  show ?case
  proof (cases "x \<le> w")
    case True
    have p: "x + step / 2 \<le> double (x + step)" using Suc.prems(1) True by (rule assms(2))
    have "0 \<le> double (x + step)" using p Suc.prems(1) assms(1) by linarith
    moreover have "real (Suc fuel) * (step / 2) = step / 2 + real fuel * (step / 2)"
      by (simp add: algebra_simps)
    then have "w < double (x + step) + real fuel * (step / 2)"
      using Suc.prems(2) p by linarith
    ultimately have "curve_loop y w step (double (x + step)) (cx @ [LineTo x (y x)])
      = Some ((cx @ [LineTo x (y x)])
              @ map (\<lambda>x. LineTo x (y x)) (abscissas_from fuel w step (double (x + step))))"
      by (rule Suc.IH)
    then show ?thesis using True by (subst curve_loop.simps) simp
  next
    case False
    then show ?thesis by (subst curve_loop.simps) simp
  qed
qed

lemma curve_loop_closed:
  assumes "ordinary_width w" and "0 < n" and "n \<le> 1000"
  shows "curve_loop y w (double (w / real n)) 0 cx = Some (cx @ curve_calls y w n)"
proof -
  define s where "s = double (w / real n)"
  have w: "1 / 2 ^ 1000 \<le> w" using assms(1) by (simp add: ordinary_width_def)
  have w0: "0 < w" using w by (rule less_le_trans [rotated]) simp
  have l: "1 / 2 ^ 1022 \<le> w / (2 * real n)" "w / (2 * real n) \<le> s"
    unfolding s_def using step_lower [OF w assms(2,3)] by blast+
  have s: "0 \<le> s" using l tiny_positive by linarith
  have "w < real (4 * n + 1) * (w / (2 * real n) / 2)"
    using w0 assms(2) by (simp add: field_simps)
  also have "\<dots> \<le> real (4 * n + 1) * (s / 2)"
    using l(2) by (intro mult_left_mono) simp_all
  finally have f: "w < 0 + real (4 * n + 1) * (s / 2)" by simp
  have p: "x + s / 2 \<le> double (x + s)" if "0 \<le> x" and "x \<le> w" for x
    unfolding s_def using w assms(2,3) that by (rule step_progress)
  have z: "(0 :: real) \<le> 0" by simp
  have "curve_loop y w s 0 cx
      = Some (cx @ map (\<lambda>x. LineTo x (y x)) (abscissas_from (4 * n + 1) w s 0))"
    using s p z f by (rule curve_loop_fuel)
  then show ?thesis by (simp add: curve_calls_def abscissas_def s_def)
qed

text \<open>
  The abscissas of an ordinary width start at \<open>0\<close> and lie between \<open>0\<close> and the width.
\<close>

lemma abscissas_from_within:
  assumes "0 \<le> step"
    and "\<And>x. 0 \<le> x \<Longrightarrow> x \<le> w \<Longrightarrow> x + step / 2 \<le> double (x + step)"
  shows "0 \<le> x \<Longrightarrow> list_all (\<lambda>a. 0 \<le> a \<and> a \<le> w) (abscissas_from fuel w step x)"
proof (induction fuel arbitrary: x)
  case 0
  show ?case by simp
next
  case (Suc fuel)
  show ?case
  proof (cases "x \<le> w")
    case True
    have "x + step / 2 \<le> double (x + step)" using Suc.prems True by (rule assms(2))
    then have "0 \<le> double (x + step)" using Suc.prems assms(1) by linarith
    then show ?thesis using True Suc.prems Suc.IH by simp
  next
    case False
    then show ?thesis by simp
  qed
qed

lemma abscissas_within:
  assumes "ordinary_width w" and "0 < n" and "n \<le> 1000"
  shows "\<exists>xs. abscissas w n = 0 # xs"
    and "list_all (\<lambda>a. 0 \<le> a \<and> a \<le> w) (abscissas w n)"
proof -
  have w: "1 / 2 ^ 1000 \<le> w" using assms(1) by (simp add: ordinary_width_def)
  have w0: "0 < w" using w by (rule less_le_trans [rotated]) simp
  have l: "1 / 2 ^ 1022 \<le> w / (2 * real n)" "w / (2 * real n) \<le> double (w / real n)"
    using step_lower [OF w assms(2,3)] by blast+
  have s: "0 \<le> double (w / real n)" using l tiny_positive by linarith
  show "\<exists>xs. abscissas w n = 0 # xs" using w0 by (simp add: abscissas_def)
  have p: "x + double (w / real n) / 2 \<le> double (x + double (w / real n))"
    if "0 \<le> x" and "x \<le> w" for x
    using w assms(2,3) that by (rule step_progress)
  have z: "(0 :: real) \<le> 0" by simp
  show "list_all (\<lambda>a. 0 \<le> a \<and> a \<le> w) (abscissas w n)"
    unfolding abscissas_def using s p z by (rule abscissas_from_within)
qed

lemma curve_loop_160:
  "ordinary_width w \<Longrightarrow> curve_loop y w (double (w / 160)) 0 cx = Some (cx @ curve_calls y w 160)"
  using curve_loop_closed [of w 160 y cx] by simp


subsection \<open>Smoke\<close>

lemma draw_random_ctx:
  "draw_random (dc\<lparr>ctx := c\<rparr>) = (fst (draw_random dc), (snd (draw_random dc))\<lparr>ctx := c\<rparr>)"
  by (simp add: draw_random_def split_beta)

lemma smoke_layer_prepend:
  "smoke_layer k (prepend pre dc) = map_option (prepend pre) (smoke_layer k dc)"
  by (auto simp add: smoke_layer_def Let_def split_beta draw_random_ctx
      curve_loop_prepend prepend_def emit_def split: option.splits)

lemma for_each_prepend:
  assumes "\<And>i dc. body i (prepend pre dc) = map_option (prepend pre) (body i dc)"
  shows "for_each body is (prepend pre dc) = map_option (prepend pre) (for_each body is dc)"
proof (induction "is" arbitrary: dc)
  case Nil
  show ?case by simp
next
  case (Cons i "is")
  show ?case by (cases "body i dc") (simp_all add: assms Cons)
qed

lemma drawSmoke_prepend: "drawSmoke (prepend pre dc) = map_option (prepend pre) (drawSmoke dc)"
  unfolding drawSmoke_def by (rule for_each_prepend [of smoke_layer, OF smoke_layer_prepend])




lemma smoke_layer_closed:
  assumes "ordinary_width (width dc)"
  shows "smoke_layer k dc =
     Some (dc\<lparr>ctx := ctx dc @ smoke_layer_calls (width dc) (height dc) (perlin_table dc) k
                                   (fst (mulberry32_next (random_state dc)) * 1000),
              random_state := snd (mulberry32_next (random_state dc))\<rparr>)"
  using assms
  by (simp add: smoke_layer_def Let_def split_beta curve_loop_160 smoke_layer_calls_def
      emit_def draw_random_def mult.commute)

lemma for_each_append:
  "for_each body (xs @ ys) a =
     (case for_each body xs a of None \<Rightarrow> None | Some a' \<Rightarrow> for_each body ys a')"
  by (induction xs arbitrary: a) (simp_all split: option.splits)

lemma advance_Suc: "advance (Suc n) a = snd (mulberry32_next (advance n a))"
  by (simp add: advance_def)

lemma for_each_single: "for_each body [i] a = body i a"
  by (simp split: option.splits)

lemma smoke_layers_closed:
  assumes "ordinary_width (width dc)"
  shows "for_each smoke_layer [0..<n] dc =
     Some (dc\<lparr>ctx := ctx dc @ concat (map (\<lambda>k. smoke_layer_calls (width dc) (height dc)
                        (perlin_table dc) k (nth_draw (random_state dc) k * 1000)) [0..<n]),
              random_state := advance n (random_state dc)\<rparr>)"
proof (induction n)
  case 0
  show ?case by (simp add: advance_def)
next
  case (Suc n)
  let ?mid = "dc\<lparr>ctx := ctx dc @ concat (map (\<lambda>k. smoke_layer_calls (width dc) (height dc)
                        (perlin_table dc) k (nth_draw (random_state dc) k * 1000)) [0..<n]),
              random_state := advance n (random_state dc)\<rparr>"
  have m: "ordinary_width (width ?mid)" using assms by simp
  have "for_each smoke_layer [0..<Suc n] dc = for_each smoke_layer [n] ?mid"
    by (simp only: upt_Suc_append [OF le0] for_each_append Suc option.case)
  also have "\<dots> = smoke_layer n ?mid" by (rule for_each_single)
  also have "\<dots> = Some (dc\<lparr>ctx := ctx dc @ concat (map (\<lambda>k. smoke_layer_calls (width dc)
                        (height dc) (perlin_table dc) k (nth_draw (random_state dc) k * 1000))
                        [0..<Suc n]),
              random_state := advance (Suc n) (random_state dc)\<rparr>)"
    by (subst smoke_layer_closed [OF m]) (simp add: advance_Suc nth_draw_def)
  finally show ?case .
qed

lemma drawSmoke_closed:
  assumes "ordinary_width (width dc)"
  shows "drawSmoke dc =
     Some (dc\<lparr>ctx := ctx dc @ concat (map (\<lambda>k. smoke_layer_calls (width dc) (height dc)
                        (perlin_table dc) k (nth_draw (random_state dc) k * 1000)) [0..<16]),
              random_state := advance 16 (random_state dc)\<rparr>)"
  unfolding drawSmoke_def using assms by (rule smoke_layers_closed)


lemma smoke_layer_zero: "width dc = 0 \<Longrightarrow> smoke_layer k dc = None"
  by (simp add: smoke_layer_def Let_def split_beta double_zero curve_loop_zero)

lemma drawSmoke_zero: "width dc = 0 \<Longrightarrow> drawSmoke dc = None"
  by (simp add: drawSmoke_def upt_conv_Cons smoke_layer_zero del: upt_Suc)

subsection \<open>Terrain\<close>

lemma terrain_horizon_prepend:
  "terrain_horizon hz (prepend pre dc) = map_option (prepend pre) (terrain_horizon hz dc)"
  by (auto simp add: terrain_horizon_def Let_def
      curve_loop_prepend prepend_def emit_def split: option.splits)


lemma terrain_structures_prepend:
  "terrain_structures hz (prepend pre dc) = prepend pre (terrain_structures hz dc)"
  by (simp add: terrain_structures_def draw_random_prepend split_beta Let_def
      fold_prepend [of "terrain_structure n hz" for n, OF terrain_structure_prepend])

lemma terrain_haze_prepend: "terrain_haze hz (prepend pre dc) = prepend pre (terrain_haze hz dc)"
  by (simp add: terrain_haze_def Let_def emit_prepend)

lemma drawTerrain_prepend:
  "drawTerrain (prepend pre dc) = map_option (prepend pre) (drawTerrain dc)"
  by (simp add: drawTerrain_def Let_def terrain_horizon_prepend terrain_structures_prepend
      terrain_haze_prepend split: option.splits)






subsection \<open>Every pass only adds calls\<close>












subsection \<open>The six passes\<close>

lemma layer_passes_prepend:
  "layer_passes (prepend pre dc) = map_option (map_sum id (prepend pre)) (layer_passes dc)"
proof (cases "drawExplosion (fillBackground dc)")
  case (Inl e)
  then show ?thesis
    by (simp add: layer_passes_def Let_def fillBackground_prepend drawExplosion_prepend)
next
  case (Inr d2)
  show ?thesis
  proof (cases "drawSmoke d2")
    case None
    then show ?thesis
      using Inr
      by (simp add: layer_passes_def Let_def fillBackground_prepend drawExplosion_prepend
          drawSmoke_prepend)
  next
    case (Some d3)
    then show ?thesis
      using Inr
      by (cases "drawTerrain (drawEmbers d3)")
        (simp_all add: layer_passes_def Let_def fillBackground_prepend drawExplosion_prepend
          drawSmoke_prepend drawEmbers_prepend drawTerrain_prepend drawAtmosphericDust_prepend)
  qed
qed



subsection \<open>drawScene\<close>

lemma scene_context_fields [simp]:
  "ctx (scene_context cx w h seed) = cx"
  "width (scene_context cx w h seed) = w"
  "height (scene_context cx w h seed) = h"
  "random_state (scene_context cx w h seed) = snd (createPerlin mulberry32_next (mulberry32 seed))"
  "perlin_table (scene_context cx w h seed) = fst (createPerlin mulberry32_next (mulberry32 seed))"
  by (simp_all add: scene_context_def Let_def split_beta)

lemma scene_context_prepend:
  "scene_context cx w h seed = prepend cx (scene_context [] w h seed)"
  by (simp add: scene_context_def Let_def split_beta prepend_def)

lemma drawScene_with_context:
  assumes "getContext cv = Some cx"
  shows "drawScene cv w h seed =
     (case layer_passes (emit [ClearRect 0 0 w h] (scene_context [] w h seed)) of
        None \<Rightarrow> None
      | Some (Inl e) \<Rightarrow> Some (Inl e)
      | Some (Inr dc) \<Rightarrow> Some (Inr (cv\<lparr>context2d := Some (cx @ ctx dc)\<rparr>)))"
proof -
  have "emit [ClearRect 0 0 w h] (scene_context cx w h seed)
      = prepend cx (emit [ClearRect 0 0 w h] (scene_context [] w h seed))"
    by (simp only: scene_context_prepend [of cx] emit_prepend)
  then have "layer_passes (emit [ClearRect 0 0 w h] (scene_context cx w h seed))
      = map_option (map_sum id (prepend cx))
          (layer_passes (emit [ClearRect 0 0 w h] (scene_context [] w h seed)))"
    by (simp only: layer_passes_prepend)
  then show ?thesis
    unfolding drawScene_def Let_def assms option.case
    by (simp split: option.splits sum.splits)
qed


lemma drawScene_without_context:
  assumes "getContext cv = None"
  shows "drawScene cv w h seed = Some (Inr cv)" and "issued cv w h seed = Some []"
  using assms by (simp_all add: drawScene_def issued_def calls_of_def)


text \<open>
  With a context and the width 0, \<open>drawScene\<close> does not return: in \<open>drawSmoke\<close> the step
  \<^verbatim>\<open>width / 160\<close> is 0 and \<^verbatim>\<open>x <= width\<close> stays true. With a negative width, the context
  throws at the first \<^verbatim>\<open>createRadialGradient\<close> of \<open>drawExplosion\<close>.
\<close>

lemma drawScene_zero_width:
  assumes "getContext cv = Some cx"
  shows "drawScene cv 0 h seed = None"
proof -
  let ?D = "emit [ClearRect 0 0 0 h] (scene_context [] 0 h seed)"
  obtain d2 where d2: "drawExplosion (fillBackground ?D) = Inr d2"
    using drawExplosion_returns [of "fillBackground ?D"] fillBackground_same [of ?D]
    by (auto simp add: same_scene_def)
  have "width d2 = 0"
    using drawExplosion_same [OF d2] fillBackground_same [of ?D] by (simp add: same_scene_def)
  then have "drawSmoke d2 = None" by (rule drawSmoke_zero)
  then have "layer_passes ?D = None" using d2 by (simp add: layer_passes_def Let_def)
  then show ?thesis by (simp add: drawScene_with_context [OF assms])
qed

lemma drawScene_negative_width:
  assumes "getContext cv = Some cx" and "w < 0"
  shows "drawScene cv w h seed = Some (Inl IndexSizeError)"
proof -
  let ?D = "emit [ClearRect 0 0 w h] (scene_context [] w h seed)"
  have "width (fillBackground ?D) < 0"
    using assms(2) fillBackground_same [of ?D] by (simp add: same_scene_def)
  then have "drawExplosion (fillBackground ?D) = Inl IndexSizeError"
    by (rule drawExplosion_throws)
  then have "layer_passes ?D = Some (Inl IndexSizeError)"
    by (simp add: layer_passes_def Let_def)
  then show ?thesis by (simp add: drawScene_with_context [OF assms(1)])
qed


subsection \<open>The composite mode\<close>














subsection \<open>The calls of the passes are scoped\<close>






















lemma ordinary_800: "ordinary_width 800"
  by (simp add: ordinary_width_def)


section \<open>drawScene: what an invocation depends on, and what it checks\<close>




text \<open>
  C7, as the code has it. When the canvas gives no 2D context, \<open>drawScene\<close> returns normally
  with the canvas untouched: it makes no call at all, and it signals nothing, its result
  being that of an invocation that drew.
\<close>

theorem drawScene_without_context_returns:
  assumes "getContext cv = None"
  shows "drawScene cv w h seed = Some (Inr cv) \<and> issued cv w h seed = Some []"
  using drawScene_without_context [OF assms] by simp

theorem drawScene_without_context_returns_witness:
  "getContext \<lparr>context2d = None\<rparr> = None
   \<and> drawScene \<lparr>context2d = None\<rparr> 800 450 123 = Some (Inr \<lparr>context2d = None\<rparr>)
   \<and> issued \<lparr>context2d = None\<rparr> 800 450 123 = Some []"
  using drawScene_without_context_returns [of "\<lparr>context2d = None\<rparr>" 800 450 123]
  by (simp add: getContext_def)

text \<open>
  C7 as the specification states it fails: without a context the outcome is a normal return,
  not the failure \<open>SurfaceUnavailable\<close>.
\<close>

theorem surface_unavailable_counterexample:
  "drawScene \<lparr>context2d = None\<rparr> 800 450 123 \<noteq> Some (Inl SurfaceUnavailable)
   \<and> drawScene \<lparr>context2d = None\<rparr> 800 450 123 = Some (Inr \<lparr>context2d = None\<rparr>)"
  by (simp add: drawScene_def getContext_def)




section \<open>The smoke pass\<close>

text \<open>
  C8. For every ordinary width, \<open>drawSmoke\<close> returns, having drawn exactly 16 values from
  the generator and added exactly the 16 layers \<open>k = 0..15\<close>, layer \<open>k\<close> being the closed
  path of \<open>smoke_layer_calls\<close> with the phase offset \<open>1000\<close> times the \<open>k\<close>-th value drawn
  and the opacity \<open>0.25 - 0.01 * k\<close>. The curve of a layer is sampled at the abscissas that
  the loop \<^verbatim>\<open>x += width / 160\<close> visits in binary64 arithmetic: they start at \<open>0\<close> and lie
  between \<open>0\<close> and the width.
\<close>

theorem drawSmoke_layers:
  assumes "ordinary_width (width dc)"
  shows "drawSmoke dc =
     Some (dc\<lparr>ctx := ctx dc @ concat (map (\<lambda>k. smoke_layer_calls (width dc) (height dc)
                        (perlin_table dc) k (nth_draw (random_state dc) k * 1000)) [0..<16]),
              random_state := advance 16 (random_state dc)\<rparr>)
       \<and> (\<exists>xs. abscissas (width dc) 160 = 0 # xs)
       \<and> list_all (\<lambda>a. 0 \<le> a \<and> a \<le> width dc) (abscissas (width dc) 160)"
  using assms abscissas_within [of "width dc" 160] by (simp add: drawSmoke_closed)

theorem drawSmoke_layers_witness:
  "ordinary_width (width (scene_context [] 800 450 42))
   \<and> drawSmoke (scene_context [] 800 450 42) =
     Some ((scene_context [] 800 450 42)\<lparr>ctx := ctx (scene_context [] 800 450 42)
               @ concat (map (\<lambda>k. smoke_layer_calls (width (scene_context [] 800 450 42))
                        (height (scene_context [] 800 450 42))
                        (perlin_table (scene_context [] 800 450 42)) k
                        (nth_draw (random_state (scene_context [] 800 450 42)) k * 1000)) [0..<16]),
              random_state := advance 16 (random_state (scene_context [] 800 450 42))\<rparr>)
   \<and> (\<exists>xs. abscissas (width (scene_context [] 800 450 42)) 160 = 0 # xs)
   \<and> list_all (\<lambda>a. 0 \<le> a \<and> a \<le> width (scene_context [] 800 450 42))
       (abscissas (width (scene_context [] 800 450 42)) 160)"
proof -
  have "ordinary_width (width (scene_context [] 800 450 42))" using ordinary_800 by simp
  then show ?thesis using drawSmoke_layers [of "scene_context [] 800 450 42"] by blast
qed

section \<open>The pipeline and the composite mode\<close>




end
